(* ===== verification/Prelude.thy ===== *)
theory Prelude
  imports Complex_Main "HOL-Library.Product_Lexorder" "HOL-Library.Multiset"
begin

text \<open>
  Shared vocabulary of the development.  Torrent ids are the integers the
  transmission daemon hands out; a listing of the daemon (\<open>tc.list()\<close>, a
  Python dict) is an association list, in the order the script iterates it.
  The lemmas below are generic facts about association lists keyed by
  \<open>fst\<close>, filtered sums and counts, used by every component theory.
\<close>

type_synonym tid = int

named_theorems model_simps "unfolding rules of the modelled operations"

subsection \<open>Association lists with distinct keys\<close>

lemma distinct_map_fst_filter [intro]:
  "distinct (map fst xs) \<Longrightarrow> distinct (map fst (filter P xs))"
  by (induction xs) auto

lemma distinct_map_fst_eq:
  "distinct (map fst xs) \<Longrightarrow> (i, a) \<in> set xs \<Longrightarrow> (i, b) \<in> set xs \<Longrightarrow> a = b"
  by (metis eq_key_imp_eq_value)

lemma fst_comp_update [simp]:
  "fst \<circ> (\<lambda>(j, t). if P j t then (j, f t) else (j, t)) = fst"
  by (auto simp: fun_eq_iff)

lemma mem_map_update:
  "(i, t') \<in> set (map (\<lambda>(j, t). if j \<in> A then (j, f t) else (j, t)) xs) \<longleftrightarrow>
     (\<exists>t. (i, t) \<in> set xs \<and> t' = (if i \<in> A then f t else t))"
  by (induction xs) (auto split: if_splits)

subsection \<open>Counting the ids of a filtered listing\<close>

lemma count_list_map_fst_filter:
  assumes "distinct (map fst xs)"
  shows "count_list (map fst (filter P xs)) i =
           (if \<exists>t. (i, t) \<in> set xs \<and> P (i, t) then 1 else 0)"
  using assms
proof (induction xs)
  case Nil
  then show ?case by simp
next
  case (Cons x xs)
  obtain j u where x: "x = (j, u)" by (cases x)
  with Cons.prems have j: "j \<notin> fst ` set xs" and d: "distinct (map fst xs)" by auto
  from j have "i = j \<Longrightarrow> count_list (map fst (filter P xs)) i = 0"
    by (auto simp: count_list_0_iff)
  with Cons.IH [OF d] x j show ?case by (auto simp: image_iff)
qed

subsection \<open>Sums over filtered listings\<close>

lemma sum_list_map_nonneg [intro]:
  "(\<And>x. x \<in> set xs \<Longrightarrow> (0::int) \<le> f x) \<Longrightarrow> 0 \<le> sum_list (map f xs)"
  by (induction xs) auto

end
