(* ===== verification/Torrent.thy ===== *)
theory Torrent
  imports Prelude
begin

text \<open>
  The data the script reads from the daemon: one torrent record per id, with
  the four fields \<^verbatim>\<open>massage-torrents.py\<close> uses (\<open>ratio\<close>,
  \<open>fields["leftUntilDone"]\<close>, \<open>fields["sizeWhenDone"]\<close>, \<open>status\<close>),
  the script's two constants, and the well-formedness of a listing.
\<close>

text \<open>
  The status strings transmissionrpc reports.  The script only ever compares
  with \<^verbatim>\<open>"downloading"\<close>.
\<close>

datatype status =
  Stopped | CheckPending | Checking | DownloadPending | Downloading
  | SeedPending | Seeding

text \<open>
  \<open>ratio\<close> is a Python float, read as a real (the float rounding of the
  literal \<^verbatim>\<open>1.1\<close> is not modelled); the byte counts are Python ints.
\<close>

record torrent =
  ratio :: real
  leftUntilDone :: int
  sizeWhenDone :: int
  status :: status

type_synonym torrents = "(tid \<times> torrent) list"

text \<open>\<^verbatim>\<open>FREE_SPACE_LIMIT = 100 * 1024 * 1024\<close> (line 7).\<close>

definition FREE_SPACE_LIMIT :: int where
  "FREE_SPACE_LIMIT = 100 * 1024 * 1024"

text \<open>
  A listing as the spec describes the daemon's data: ids unique (they are the
  keys of a dict), ratios and byte counts non-negative.
\<close>

definition valid_table :: "torrents \<Rightarrow> bool" where
  "valid_table ts \<longleftrightarrow> distinct (map fst ts) \<and>
     list_all (\<lambda>(i, t). 0 \<le> ratio t \<and> 0 \<le> leftUntilDone t \<and> 0 \<le> sizeWhenDone t) ts"

lemma FREE_SPACE_LIMIT_val [model_simps]: "FREE_SPACE_LIMIT = 104857600"
  by (simp add: FREE_SPACE_LIMIT_def)

lemma valid_table_distinct [dest]: "valid_table ts \<Longrightarrow> distinct (map fst ts)"
  by (simp add: valid_table_def)

lemma valid_table_entry:
  "valid_table ts \<Longrightarrow> (i, t) \<in> set ts \<Longrightarrow>
     0 \<le> ratio t \<and> 0 \<le> leftUntilDone t \<and> 0 \<le> sizeWhenDone t"
  by (auto simp: valid_table_def list_all_iff)

lemma valid_table_filter [intro]: "valid_table ts \<Longrightarrow> valid_table (filter P ts)"
  by (auto simp: valid_table_def list_all_iff)

lemma valid_table_Nil [simp]: "valid_table []"
  by (simp add: valid_table_def)

lemma valid_table_Cons [simp]:
  "valid_table ((i, t) # ts) \<longleftrightarrow> i \<notin> fst ` set ts \<and>
     0 \<le> ratio t \<and> 0 \<le> leftUntilDone t \<and> 0 \<le> sizeWhenDone t \<and> valid_table ts"
  by (auto simp: valid_table_def)

end
