(* ===== verification/Daemon.thy ===== *)
theory Daemon
  imports Torrent
begin

text \<open>
  The transmission daemon as the script sees it through transmissionrpc
  (\<open>tc.list\<close>, \<open>tc.remove\<close>, \<open>tc.stop\<close>, \<open>tc.start\<close>) together with
  \<open>time.sleep\<close>: a record holding the daemon's torrent table and the log of
  actions the script has issued so far.  Every action is an \<open>action\<close> value
  with one step function \<open>apply_action\<close> on the table, so that a run of the
  script is its list of actions and the daemon's final table is that list
  replayed on the initial one.
\<close>

datatype action =
  Remove tid
  | Stop "tid set"
  | Start "tid set"
  | Sleep nat

text \<open>
  A resumed torrent downloads if it has bytes left and seeds otherwise.
\<close>

definition resume_status :: "torrent \<Rightarrow> status" where
  "resume_status t = (if 0 < leftUntilDone t then Downloading else Seeding)"

fun apply_action :: "torrents \<Rightarrow> action \<Rightarrow> torrents" where
  "apply_action ts (Remove i) = filter (\<lambda>(j, _). j \<noteq> i) ts"
| "apply_action ts (Stop ids) =
     map (\<lambda>(j, t). if j \<in> ids then (j, t\<lparr>status := Stopped\<rparr>) else (j, t)) ts"
| "apply_action ts (Start ids) =
     map (\<lambda>(j, t). if j \<in> ids then (j, t\<lparr>status := resume_status t\<rparr>) else (j, t)) ts"
| "apply_action ts (Sleep n) = ts"

record daemon =
  table :: torrents
  log :: "action list"

definition exec_action :: "action \<Rightarrow> daemon \<Rightarrow> daemon" where
  "exec_action a d = d\<lparr>table := apply_action (table d) a, log := log d @ [a]\<rparr>"

definition tc_list :: "daemon \<Rightarrow> torrents" where
  "tc_list d = table d"

definition tc_remove :: "tid \<Rightarrow> daemon \<Rightarrow> daemon" where
  "tc_remove i = exec_action (Remove i)"

definition tc_stop :: "tid set \<Rightarrow> daemon \<Rightarrow> daemon" where
  "tc_stop ids = exec_action (Stop ids)"

definition tc_start :: "tid set \<Rightarrow> daemon \<Rightarrow> daemon" where
  "tc_start ids = exec_action (Start ids)"

definition time_sleep :: "nat \<Rightarrow> daemon \<Rightarrow> daemon" where
  "time_sleep n = exec_action (Sleep n)"

text \<open>The actions a step of the script has issued, and the ids it removed.\<close>

definition issued :: "daemon \<Rightarrow> daemon \<Rightarrow> action list" where
  "issued d d' = drop (length (log d)) (log d')"

fun removed :: "action list \<Rightarrow> tid list" where
  "removed [] = []"
| "removed (Remove i # as) = i # removed as"
| "removed (_ # as) = removed as"

definition replay :: "action list \<Rightarrow> torrents \<Rightarrow> torrents" where
  "replay as ts = fold (\<lambda>a ts. apply_action ts a) as ts"

declare tc_list_def [model_simps] tc_remove_def [model_simps] tc_stop_def [model_simps]
  tc_start_def [model_simps] time_sleep_def [model_simps]

subsection \<open>Each action keeps the table well formed\<close>

lemma map_fst_apply_action [simp]:
  "map fst (apply_action ts (Stop ids)) = map fst ts"
  "map fst (apply_action ts (Start ids)) = map fst ts"
  by simp_all

lemma valid_table_status_update [simp]:
  "valid_table (map (\<lambda>(j, t). if j \<in> ids then (j, t\<lparr>status := f t\<rparr>) else (j, t)) ts)
     \<longleftrightarrow> valid_table ts"
  unfolding valid_table_def list_all_iff by (auto split: if_splits)

lemma mem_apply_stop:
  "(i, t') \<in> set (apply_action ts (Stop A)) \<longleftrightarrow>
     (\<exists>t. (i, t) \<in> set ts \<and> t' = (if i \<in> A then t\<lparr>status := Stopped\<rparr> else t))"
  by (simp only: apply_action.simps mem_map_update)

lemma mem_apply_start:
  "(i, t') \<in> set (apply_action ts (Start A)) \<longleftrightarrow>
     (\<exists>t. (i, t) \<in> set ts \<and> t' = (if i \<in> A then t\<lparr>status := resume_status t\<rparr> else t))"
  by (simp only: apply_action.simps mem_map_update)

lemma apply_stop_start_empty [simp]:
  "apply_action ts (Stop {}) = ts" "apply_action ts (Start {}) = ts"
  by (induction ts) auto

lemma valid_apply_action: "valid_table ts \<Longrightarrow> valid_table (apply_action ts a)"
  by (cases a) auto

lemma valid_replay: "valid_table ts \<Longrightarrow> valid_table (replay as ts)"
  by (induction as arbitrary: ts) (auto simp: replay_def intro: valid_apply_action)

subsection \<open>The log determines the table\<close>

lemma issued_exec_action [simp]: "issued d (exec_action a d) = [a]"
  by (simp add: issued_def exec_action_def)

lemma log_exec_action [simp]: "log (exec_action a d) = log d @ [a]"
  by (simp add: exec_action_def)

lemma table_exec_action [simp]: "table (exec_action a d) = apply_action (table d) a"
  by (simp add: exec_action_def)

lemma replay_Nil [simp]: "replay [] ts = ts"
  and replay_append [simp]: "replay (as @ bs) ts = replay bs (replay as ts)"
  and replay_Cons [simp]: "replay (a # as) ts = replay as (apply_action ts a)"
  by (simp_all add: replay_def)

lemma removed_append [simp]: "removed (as @ bs) = removed as @ removed bs"
  by (induction as rule: removed.induct) auto

lemma apply_action_entry:
  "(i, t') \<in> set (apply_action ts a) \<Longrightarrow>
     \<exists>t. (i, t) \<in> set ts \<and> ratio t' = ratio t \<and> leftUntilDone t' = leftUntilDone t"
  by (cases a) (auto split: if_splits)

lemma replay_entry:
  "(i, t') \<in> set (replay as ts) \<Longrightarrow>
     \<exists>t. (i, t) \<in> set ts \<and> ratio t' = ratio t \<and> leftUntilDone t' = leftUntilDone t"
proof (induction as arbitrary: ts)
  case Nil
  then have "(i, t') \<in> set ts" by simp
  then show ?case by blast
next
  case (Cons a as)
  from Cons.IH [of "apply_action ts a"] Cons.prems obtain u where
    "(i, u) \<in> set (apply_action ts a)" "ratio t' = ratio u" "leftUntilDone t' = leftUntilDone u"
    by auto
  with apply_action_entry [of i u ts a] show ?case by auto
qed

text \<open>
  A step of the script that only ever extends the log is described by its
  issued actions: the new table is their replay on the old one.
\<close>

definition log_extends :: "daemon \<Rightarrow> daemon \<Rightarrow> bool" where
  "log_extends d d' \<longleftrightarrow> (\<exists>as. log d' = log d @ as \<and> table d' = replay as (table d)
     \<and> daemon.more d' = daemon.more d)"

lemma log_extends_refl [intro, simp]: "log_extends d d"
  by (auto simp: log_extends_def intro: exI [of _ "[]"])

lemma log_extends_exec [intro, simp]: "log_extends d (exec_action a d)"
  by (auto simp: log_extends_def exec_action_def intro!: exI [of _ "[a]"])

lemma log_extends_trans [trans]:
  "log_extends d1 d2 \<Longrightarrow> log_extends d2 d3 \<Longrightarrow> log_extends d1 d3"
  by (auto simp: log_extends_def)

lemma log_extends_issued:
  "log_extends d d' \<Longrightarrow> log d' = log d @ issued d d' \<and> table d' = replay (issued d d') (table d)"
  by (auto simp: log_extends_def issued_def)

lemma issued_trans:
  "log_extends d1 d2 \<Longrightarrow> log_extends d2 d3 \<Longrightarrow> issued d1 d3 = issued d1 d2 @ issued d2 d3"
  by (auto simp: log_extends_def issued_def)

end
