(* ===== verification/Cleanup.thy ===== *)
theory Cleanup
  imports Daemon
begin

text \<open>
  Phase 1 of \<^verbatim>\<open>main()\<close> (lines 12--16): every finished torrent whose seed
  ratio has reached 1.1 is removed, one \<open>tc.remove\<close> per torrent followed by
  \<open>time.sleep(2)\<close>.  The loop iterates over one listing taken before the
  first removal.  The lemmas give the actions the phase issues and the table
  it leaves, in closed form.
\<close>

fun cleanup_loop :: "torrents \<Rightarrow> daemon \<Rightarrow> daemon" where
  "cleanup_loop [] d = d"
| "cleanup_loop ((torrent_id, torrent) # ts) d =
     cleanup_loop ts
       (if 11 / 10 \<le> ratio torrent \<and> leftUntilDone torrent = 0
        then time_sleep 2 (tc_remove torrent_id d) else d)"

definition cleanup :: "daemon \<Rightarrow> daemon" where
  "cleanup d = cleanup_loop (tc_list d) d"

text \<open>The torrents the phase is meant to remove, as the spec states them.\<close>

definition seed_done :: "torrent \<Rightarrow> bool" where
  "seed_done t \<longleftrightarrow> 11 / 10 \<le> ratio t \<and> leftUntilDone t = 0"

definition cleanup_actions :: "torrents \<Rightarrow> action list" where
  "cleanup_actions ts = concat (map (\<lambda>(i, t). if seed_done t then [Remove i, Sleep 2] else []) ts)"
text \<open>
  A sample daemon: torrent 1 has seeded to ratio 2, torrent 2 is finished at
  ratio 0.5, torrent 3 is still downloading.
\<close>

definition cleanup_example :: daemon where
  "cleanup_example = \<lparr>table =
     [(1, \<lparr>ratio = 2, leftUntilDone = 0, sizeWhenDone = 500, status = Seeding\<rparr>),
      (2, \<lparr>ratio = 1 / 2, leftUntilDone = 0, sizeWhenDone = 300, status = Seeding\<rparr>),
      (3, \<lparr>ratio = 3, leftUntilDone = 70, sizeWhenDone = 90, status = Downloading\<rparr>)],
     log = []\<rparr>"

subsection \<open>Closed form of the loop\<close>

lemma cleanup_step_extends:
  "log_extends d (if seed_done t then time_sleep 2 (tc_remove i d) else d)"
  by (simp add: model_simps) (meson log_extends_exec log_extends_trans)

lemma cleanup_loop_log_extends: "log_extends d (cleanup_loop ts d)"
proof (induction ts arbitrary: d)
  case Nil
  then show ?case by simp
next
  case (Cons x ts)
  obtain i t where x: "x = (i, t)" by (cases x)
  let ?d1 = "if seed_done t then time_sleep 2 (tc_remove i d) else d"
  have "log_extends d (cleanup_loop ts ?d1)"
    using cleanup_step_extends Cons.IH by (rule log_extends_trans)
  with x show ?case by (simp add: seed_done_def)
qed


lemma issued_cleanup_loop: "issued d (cleanup_loop ts d) = cleanup_actions ts"
proof (induction ts arbitrary: d)
  case Nil
  then show ?case by (simp add: issued_def cleanup_actions_def)
next
  case (Cons x ts)
  obtain i t where x: "x = (i, t)" by (cases x)
  let ?d1 = "if seed_done t then time_sleep 2 (tc_remove i d) else d"
  have "issued d ?d1 = (if seed_done t then [Remove i, Sleep 2] else [])"
    by (simp add: model_simps issued_def)
  moreover have "issued d (cleanup_loop ts ?d1) = issued d ?d1 @ issued ?d1 (cleanup_loop ts ?d1)"
    using cleanup_step_extends cleanup_loop_log_extends by (rule issued_trans)
  ultimately show ?case using Cons.IH [of ?d1] x
    by (simp add: seed_done_def cleanup_actions_def)
qed

lemma removed_cleanup_actions:
  "removed (cleanup_actions ts) = map fst (filter (seed_done \<circ> snd) ts)"
  by (induction ts) (auto simp: cleanup_actions_def)
lemma replay_cleanup_actions:
  "replay (cleanup_actions ts) tbl = filter (\<lambda>(j, _). j \<notin> fst ` set (filter (seed_done \<circ> snd) ts)) tbl"
proof (induction ts arbitrary: tbl)
  case Nil
  then show ?case by (simp add: cleanup_actions_def)
next
  case (Cons x ts)
  then show ?case
    by (cases x) (auto simp: cleanup_actions_def filter_filter intro: filter_cong)
qed


lemma filter_ids_of_self:
  assumes "distinct (map fst ts)"
  shows "filter (\<lambda>(j, _). j \<notin> fst ` set (filter (P \<circ> snd) ts)) ts = filter (\<lambda>(_, t). \<not> P t) ts"
proof (rule filter_cong [OF refl])
  fix x assume x: "x \<in> set ts"
  obtain j u where xj: "x = (j, u)" by (cases x)
  have "j \<in> fst ` set (filter (P \<circ> snd) ts) \<longleftrightarrow> P u"
  proof
    assume "j \<in> fst ` set (filter (P \<circ> snd) ts)"
    then obtain u' where u': "(j, u') \<in> set ts" "P u'" by auto
    from distinct_map_fst_eq [OF assms u'(1)] x xj have "u' = u" by simp
    with u' show "P u" by simp
  next
    assume "P u"
    with x xj have "(j, u) \<in> set (filter (P \<circ> snd) ts)" by simp
    then show "j \<in> fst ` set (filter (P \<circ> snd) ts)" by (rule image_eqI [rotated]) simp
  qed
  with xj show "(case x of (j, _) \<Rightarrow> j \<notin> fst ` set (filter (P \<circ> snd) ts)) = (case x of (_, t) \<Rightarrow> \<not> P t)"
    by simp
qed
lemma cleanup_closed_form:
  "log (cleanup d) = log d @ cleanup_actions (table d)"
  "table (cleanup d) = replay (cleanup_actions (table d)) (table d)"
  using log_extends_issued [OF cleanup_loop_log_extends [of d "table d"]]
  by (simp_all add: cleanup_def tc_list_def issued_cleanup_loop)

lemma issued_cleanup: "issued d (cleanup d) = cleanup_actions (table d)"
  by (simp add: issued_def cleanup_closed_form)

lemma log_extends_cleanup: "log_extends d (cleanup d)"
  unfolding cleanup_def tc_list_def by (rule cleanup_loop_log_extends)

subsection \<open>What phase 1 removes\<close>

text \<open>
  C4: with the ids of a listing unique, phase 1 issues exactly one removal
  for every finished torrent whose ratio is at least 1.1, and none for any
  other id.
\<close>

theorem cleanup_removes_each_once:
  assumes "distinct (map fst (table d))"
  shows "count_list (removed (issued d (cleanup d))) i =
           (if \<exists>t. (i, t) \<in> set (table d) \<and> 11 / 10 \<le> ratio t \<and> leftUntilDone t = 0
            then 1 else 0)"
  using count_list_map_fst_filter [OF assms, of "seed_done \<circ> snd" i]
  by (simp add: issued_cleanup removed_cleanup_actions seed_done_def)

theorem cleanup_removes_each_once_witness:
  "distinct (map fst (table cleanup_example)) \<and>
   count_list (removed (issued cleanup_example (cleanup cleanup_example))) 1 = 1 \<and>
   count_list (removed (issued cleanup_example (cleanup cleanup_example))) 2 = 0"
  using cleanup_removes_each_once [of cleanup_example 1] cleanup_removes_each_once [of cleanup_example 2]
  by (simp add: cleanup_example_def)

text \<open>
  C9: after phase 1 the daemon holds exactly the torrents that are not both
  finished and at ratio 1.1, unchanged and in their order.
\<close>

theorem cleanup_table:
  assumes "distinct (map fst (table d))"
  shows "table (cleanup d) = filter (\<lambda>(_, t). \<not> (11 / 10 \<le> ratio t \<and> leftUntilDone t = 0)) (table d)"
  using filter_ids_of_self [OF assms, of seed_done]
  by (simp add: cleanup_closed_form replay_cleanup_actions seed_done_def)

theorem cleanup_table_witness:
  "distinct (map fst (table cleanup_example)) \<and>
   map fst (table (cleanup cleanup_example)) = [2, 3]"
  using cleanup_table [of cleanup_example] by (simp add: cleanup_example_def)

text \<open>
  C16: phase 1 throttles the daemon: its actions are its removals, each
  followed at once by a two-second sleep, and nothing else.
\<close>

theorem cleanup_throttled:
  "issued d (cleanup d) = concat (map (\<lambda>i. [Remove i, Sleep 2]) (removed (issued d (cleanup d))))"
proof -
  have "cleanup_actions ts = concat (map (\<lambda>i. [Remove i, Sleep 2]) (removed (cleanup_actions ts)))" for ts
    by (induction ts) (auto simp: cleanup_actions_def)
  then show ?thesis by (simp add: issued_cleanup)
qed

end
