(* ===== verification/Emergency.thy ===== *)
theory Emergency
  imports Daemon
begin

text \<open>
  Phase 2 of \<^verbatim>\<open>main()\<close> (lines 22--42), run when the free space is below
  \<open>FREE_SPACE_LIMIT\<close>: a scan of a fresh listing for the finished torrent
  with the highest ratio (strict \<open>>\<close> against a running maximum that starts
  at -1.0, so the first of equal ratios wins), its removal if the scan found
  an id that is true in Python (\<open>None\<close> and \<open>0\<close> are false), and
  otherwise one batched stop of every downloading torrent.  The abstract
  contract of the phase is the outcome datatype the spec's design notes
  propose; \<open>emergency_refines_spec\<close> shows that the code implements it.
\<close>

fun find_doomed :: "torrents \<Rightarrow> tid option \<Rightarrow> real \<Rightarrow> tid option \<times> real" where
  "find_doomed [] doomed_id doomed_ratio = (doomed_id, doomed_ratio)"
| "find_doomed ((torrent_id, torrent) # ts) doomed_id doomed_ratio =
     (if leftUntilDone torrent = 0 \<and> doomed_ratio < ratio torrent
      then find_doomed ts (Some torrent_id) (ratio torrent)
      else find_doomed ts doomed_id doomed_ratio)"

definition downloading_torrent_ids :: "torrents \<Rightarrow> tid list" where
  "downloading_torrent_ids ts = [torrent_id. (torrent_id, torrent) \<leftarrow> ts, status torrent = Downloading]"

definition stop_all_downloading :: "daemon \<Rightarrow> daemon" where
  "stop_all_downloading d =
     (let ids = downloading_torrent_ids (tc_list d)
      in if 0 < length ids then tc_stop (set ids) d else d)"

definition emergency :: "daemon \<Rightarrow> daemon" where
  "emergency d =
     (case find_doomed (tc_list d) None (-1) of
        (Some doomed_id, _) \<Rightarrow> if doomed_id \<noteq> 0 then tc_remove doomed_id d else stop_all_downloading d
      | (None, _) \<Rightarrow> stop_all_downloading d)"

subsection \<open>The contract of the phase\<close>

datatype outcome = Killed tid | StoppedAll "tid set" | NoAction

fun outcome_of :: "action list \<Rightarrow> outcome" where
  "outcome_of [Remove i] = Killed i"
| "outcome_of [Stop ids] = StoppedAll ids"
| "outcome_of _ = NoAction"

definition has_finished :: "torrents \<Rightarrow> bool" where
  "has_finished ts \<longleftrightarrow> (\<exists>(i, t) \<in> set ts. leftUntilDone t = 0)"

definition max_ratio_finished :: "torrents \<Rightarrow> tid \<Rightarrow> bool" where
  "max_ratio_finished ts i \<longleftrightarrow>
     (\<exists>(j, t) \<in> set ts. j = i \<and> leftUntilDone t = 0 \<and>
        (\<forall>(k, u) \<in> set ts. leftUntilDone u = 0 \<longrightarrow> ratio u \<le> ratio t))"

definition emergency_spec :: "torrents \<Rightarrow> outcome \<Rightarrow> bool" where
  "emergency_spec ts oc =
     (if has_finished ts then (case oc of Killed i \<Rightarrow> max_ratio_finished ts i | _ \<Rightarrow> False)
      else if downloading_torrent_ids ts \<noteq> [] then oc = StoppedAll (set (downloading_torrent_ids ts))
      else oc = NoAction)"

text \<open>
  Where the scan's result lies in the listing: it is unchanged when no
  finished torrent beats the starting ratio, and otherwise it is the first
  finished torrent whose ratio is not beaten later.
\<close>

definition first_max :: "torrents \<Rightarrow> real \<Rightarrow> tid \<Rightarrow> real \<Rightarrow> bool" where
  "first_max ts dr i r \<longleftrightarrow>
     (\<exists>xs t ys. ts = xs @ (i, t) # ys \<and> leftUntilDone t = 0 \<and> ratio t = r \<and> dr < r \<and>
        (\<forall>(j, u) \<in> set xs. leftUntilDone u = 0 \<longrightarrow> ratio u < r) \<and>
        (\<forall>(j, u) \<in> set ys. leftUntilDone u = 0 \<longrightarrow> ratio u \<le> r))"

text \<open>
  Sample listings: the spec's example of three finished torrents A, B, C with
  ratios 2.0, 3.5 and 1.0 (ids 1, 2, 3), and its example of a downloading
  torrent D (id 4) beside a paused one E (id 5).
\<close>

definition kill_example :: daemon where
  "kill_example = \<lparr>table =
     [(1, \<lparr>ratio = 2, leftUntilDone = 0, sizeWhenDone = 100, status = Seeding\<rparr>),
      (2, \<lparr>ratio = 7 / 2, leftUntilDone = 0, sizeWhenDone = 200, status = Seeding\<rparr>),
      (3, \<lparr>ratio = 1, leftUntilDone = 0, sizeWhenDone = 300, status = Stopped\<rparr>)],
     log = []\<rparr>"

definition stop_example :: daemon where
  "stop_example = \<lparr>table =
     [(4, \<lparr>ratio = 0, leftUntilDone = 50, sizeWhenDone = 80, status = Downloading\<rparr>),
      (5, \<lparr>ratio = 0, leftUntilDone = 20, sizeWhenDone = 40, status = Stopped\<rparr>)],
     log = []\<rparr>"

text \<open>
  Listings where the code parts from the spec: a finished torrent with id 0,
  and a finished torrent whose ratio transmission reports as -1 (its value
  for a ratio that is not available), each beside a downloading torrent.
\<close>

definition zero_id_example :: daemon where
  "zero_id_example = \<lparr>table =
     [(0, \<lparr>ratio = 2, leftUntilDone = 0, sizeWhenDone = 100, status = Seeding\<rparr>),
      (5, \<lparr>ratio = 0, leftUntilDone = 10, sizeWhenDone = 60, status = Downloading\<rparr>)],
     log = []\<rparr>"

definition ratio_na_example :: daemon where
  "ratio_na_example = \<lparr>table =
     [(1, \<lparr>ratio = -1, leftUntilDone = 0, sizeWhenDone = 100, status = Seeding\<rparr>),
      (2, \<lparr>ratio = 0, leftUntilDone = 10, sizeWhenDone = 60, status = Downloading\<rparr>)],
     log = []\<rparr>"

subsection \<open>The scan\<close>

lemma first_max_Cons_keep:
  assumes "first_max ts dr' i r" and "leftUntilDone u = 0 \<longrightarrow> ratio u \<le> dr'" and "dr \<le> dr'"
  shows "first_max ((j, u) # ts) dr i r"
proof -
  from assms(1) obtain xs t ys where
    "ts = xs @ (i, t) # ys" "leftUntilDone t = 0" "ratio t = r" "dr' < r"
    "\<forall>(j, u) \<in> set xs. leftUntilDone u = 0 \<longrightarrow> ratio u < r"
    "\<forall>(j, u) \<in> set ys. leftUntilDone u = 0 \<longrightarrow> ratio u \<le> r"
    unfolding first_max_def by blast
  with assms(2,3) show ?thesis
    unfolding first_max_def
    by (intro exI [of _ "(j, u) # xs"] exI [of _ t] exI [of _ ys]) auto
qed

lemma find_doomed_cases:
  "find_doomed ts did dr = (did, dr) \<and> (\<forall>(j, u) \<in> set ts. leftUntilDone u = 0 \<longrightarrow> ratio u \<le> dr)
   \<or> (\<exists>i r. find_doomed ts did dr = (Some i, r) \<and> first_max ts dr i r)"
proof (induction ts arbitrary: did dr)
  case Nil
  then show ?case by simp
next
  case (Cons x ts)
  obtain j u where x: "x = (j, u)" by (cases x)
  show ?case
  proof (cases "leftUntilDone u = 0 \<and> dr < ratio u")
    case True
    from Cons.IH [of "Some j" "ratio u"] show ?thesis
    proof
      assume "find_doomed ts (Some j) (ratio u) = (Some j, ratio u) \<and>
              (\<forall>(k, v) \<in> set ts. leftUntilDone v = 0 \<longrightarrow> ratio v \<le> ratio u)"
      then have "first_max ((j, u) # ts) dr j (ratio u)"
        using True unfolding first_max_def by (intro exI [of _ "[]"]) auto
      with True x \<open>find_doomed ts (Some j) (ratio u) = _ \<and> _\<close> show ?thesis by auto
    next
      assume "\<exists>i r. find_doomed ts (Some j) (ratio u) = (Some i, r) \<and> first_max ts (ratio u) i r"
      then obtain i r where "find_doomed ts (Some j) (ratio u) = (Some i, r)" "first_max ts (ratio u) i r"
        by blast
      moreover from this(2) True have "first_max ((j, u) # ts) dr i r"
        by (intro first_max_Cons_keep) auto
      ultimately show ?thesis using True x by auto
    qed
  next
    case False
    from Cons.IH [of did dr] show ?thesis
    proof
      assume "find_doomed ts did dr = (did, dr) \<and> (\<forall>(k, v) \<in> set ts. leftUntilDone v = 0 \<longrightarrow> ratio v \<le> dr)"
      with False x show ?thesis by auto
    next
      assume "\<exists>i r. find_doomed ts did dr = (Some i, r) \<and> first_max ts dr i r"
      then obtain i r where "find_doomed ts did dr = (Some i, r)" "first_max ts dr i r"
        by blast
      moreover from this(2) False have "first_max ((j, u) # ts) dr i r"
        by (intro first_max_Cons_keep) auto
      ultimately show ?thesis using False x by auto
    qed
  qed
qed

lemma find_doomed_Some:
  "find_doomed ts None dr = (Some i, r) \<Longrightarrow> first_max ts dr i r"
  using find_doomed_cases [of ts None dr] by auto

lemma find_doomed_none_better:
  "\<forall>(j, u) \<in> set ts. leftUntilDone u = 0 \<longrightarrow> ratio u \<le> dr \<Longrightarrow> find_doomed ts did dr = (did, dr)"
  using find_doomed_cases [of ts did dr] by (force simp: first_max_def)

lemma find_doomed_found:
  assumes "(j, u) \<in> set ts" "leftUntilDone u = 0" "dr < ratio u"
  shows "\<exists>i r. find_doomed ts did dr = (Some i, r) \<and> first_max ts dr i r"
  using find_doomed_cases [of ts did dr] assms by force

lemma first_max_max_ratio_finished:
  assumes "first_max ts dr i r"
  shows "max_ratio_finished ts i \<and> i \<in> fst ` set ts"
proof -
  from assms obtain xs t ys where ts: "ts = xs @ (i, t) # ys" and t: "leftUntilDone t = 0" "ratio t = r"
    and xs: "\<forall>(j, u) \<in> set xs. leftUntilDone u = 0 \<longrightarrow> ratio u < r"
    and ys: "\<forall>(j, u) \<in> set ys. leftUntilDone u = 0 \<longrightarrow> ratio u \<le> r"
    unfolding first_max_def by blast
  have "\<forall>(k, u) \<in> set ts. leftUntilDone u = 0 \<longrightarrow> ratio u \<le> ratio t"
    using xs ys t by (fastforce simp: ts)
  with ts t show ?thesis
    by (auto simp: max_ratio_finished_def intro!: bexI [of _ "(i, t)"] image_eqI [of _ fst "(i, t)"])
qed

subsection \<open>The phase\<close>

lemma emergency_kill:
  "find_doomed (table d) None (-1) = (Some i, r) \<Longrightarrow> i \<noteq> 0 \<Longrightarrow> emergency d = tc_remove i d"
  by (simp add: emergency_def tc_list_def)

lemma emergency_fallback:
  "find_doomed (table d) None (-1) = (None, r) \<or> find_doomed (table d) None (-1) = (Some 0, r) \<Longrightarrow>
     emergency d = stop_all_downloading d"
  by (auto simp: emergency_def tc_list_def)

lemma issued_stop_all_downloading:
  "issued d (stop_all_downloading d) =
     (if downloading_torrent_ids (table d) \<noteq> [] then [Stop (set (downloading_torrent_ids (table d)))] else [])"
  by (simp add: stop_all_downloading_def tc_list_def tc_stop_def issued_def)

lemma table_stop_all_downloading:
  "table (stop_all_downloading d) =
     (if downloading_torrent_ids (table d) \<noteq> [] then apply_action (table d) (Stop (set (downloading_torrent_ids (table d))))
      else table d)"
  by (simp add: stop_all_downloading_def tc_list_def tc_stop_def)

lemma no_finished_fallback:
  "\<not> has_finished (table d) \<Longrightarrow> emergency d = stop_all_downloading d"
  using find_doomed_none_better [of "table d" "-1" None] emergency_fallback [of d "-1"]
  by (auto simp: has_finished_def)

subsection \<open>The phase implements its contract\<close>

text \<open>
  C1: on a well-formed listing whose ids are all true in Python (transmission
  numbers its torrents from 1), phase 2 kills a finished torrent of maximal
  ratio if there is a finished torrent, otherwise stops exactly the
  downloading torrents in one call, and otherwise does nothing.
\<close>

theorem emergency_refines_spec:
  assumes valid: "valid_table (table d)" and ids: "0 \<notin> fst ` set (table d)"
  shows "emergency_spec (table d) (outcome_of (issued d (emergency d)))"
proof (cases "has_finished (table d)")
  case True
  then obtain j u where ju: "(j, u) \<in> set (table d)" "leftUntilDone u = 0"
    by (auto simp: has_finished_def)
  with valid have "-1 < ratio u" using valid_table_entry [OF valid ju(1)] by simp
  with ju obtain i r where found: "find_doomed (table d) None (-1) = (Some i, r)" "first_max (table d) (-1) i r"
    using find_doomed_found by blast
  from first_max_max_ratio_finished [OF found(2)] ids
  have "max_ratio_finished (table d) i" "i \<noteq> 0" by auto
  with found(1) True show ?thesis
    by (simp add: emergency_kill emergency_spec_def tc_remove_def)
next
  case False
  then show ?thesis
    by (simp add: no_finished_fallback issued_stop_all_downloading emergency_spec_def)
qed

theorem emergency_refines_spec_witness:
  "valid_table (table kill_example) \<and> 0 \<notin> fst ` set (table kill_example) \<and>
   emergency_spec (table kill_example) (outcome_of (issued kill_example (emergency kill_example))) \<and>
   outcome_of (issued kill_example (emergency kill_example)) = Killed 2"
  using emergency_refines_spec [of kill_example]
  by (simp add: kill_example_def emergency_def tc_list_def tc_remove_def)

text \<open>
  C10: the scan of lines 26--31 returns the first finished torrent of the
  listing whose ratio no later finished torrent exceeds: every finished
  torrent before it has a strictly smaller ratio, every one after it a ratio
  no larger, so ties go to the first one encountered.
\<close>

theorem find_doomed_first_max:
  assumes "find_doomed ts None (-1) = (Some i, r)"
  shows "\<exists>xs t ys. ts = xs @ (i, t) # ys \<and> leftUntilDone t = 0 \<and> ratio t = r \<and>
           (\<forall>(j, u) \<in> set xs. leftUntilDone u = 0 \<longrightarrow> ratio u < r) \<and>
           (\<forall>(j, u) \<in> set ys. leftUntilDone u = 0 \<longrightarrow> ratio u \<le> r)"
  using find_doomed_Some [OF assms] unfolding first_max_def by blast

theorem find_doomed_first_max_witness:
  "find_doomed (table kill_example) None (-1) = (Some 2, 7 / 2) \<and>
   (\<exists>xs t ys. table kill_example = xs @ (2, t) # ys \<and> leftUntilDone t = 0 \<and> ratio t = 7 / 2)"
proof -
  have found: "find_doomed (table kill_example) None (-1) = (Some 2, 7 / 2)"
    by (simp add: kill_example_def)
  with find_doomed_first_max [OF found] show ?thesis by blast
qed

text \<open>
  C13: when no torrent is finished, phase 2 removes nothing and leaves no
  torrent downloading.
\<close>

theorem emergency_stop_all:
  assumes "\<not> has_finished (table d)"
  shows "map fst (table (emergency d)) = map fst (table d) \<and>
         (\<forall>(i, t) \<in> set (table (emergency d)). status t \<noteq> Downloading)"
  using assms
  by (auto simp: no_finished_fallback table_stop_all_downloading downloading_torrent_ids_def split: if_splits)

theorem emergency_stop_all_witness:
  "\<not> has_finished (table stop_example) \<and>
   map fst (table (emergency stop_example)) = [4, 5] \<and>
   Downloading \<notin> set (map (status \<circ> snd) (table (emergency stop_example)))"
proof -
  have h: "\<not> has_finished (table stop_example)" by (simp add: stop_example_def has_finished_def)
  from emergency_stop_all [OF h] h show ?thesis by (auto simp: stop_example_def)
qed

subsection \<open>Where the code leaves its contract\<close>

text \<open>
  C17: \<^verbatim>\<open>if doomed_id:\<close> (line 32) tests Python truthiness.  On a
  well-formed listing with a finished torrent, phase 2 removes nothing
  exactly when the scan's pick has id 0, and then it stops all downloading
  torrents instead, although a finished torrent exists.
\<close>

theorem emergency_id_zero_stops:
  assumes valid: "valid_table (table d)" and fin: "has_finished (table d)"
  shows "(removed (issued d (emergency d)) = [] \<longleftrightarrow> fst (find_doomed (table d) None (-1)) = Some 0) \<and>
         (fst (find_doomed (table d) None (-1)) = Some 0 \<longrightarrow>
            issued d (emergency d) =
              (if downloading_torrent_ids (table d) \<noteq> [] then [Stop (set (downloading_torrent_ids (table d)))] else []))"
proof -
  from fin obtain j u where ju: "(j, u) \<in> set (table d)" "leftUntilDone u = 0"
    by (auto simp: has_finished_def)
  then have "-1 < ratio u" using valid_table_entry [OF valid ju(1)] by simp
  with ju obtain i r where found: "find_doomed (table d) None (-1) = (Some i, r)"
    using find_doomed_found by blast
  show ?thesis
  proof (cases "i = 0")
    case True
    with found have "emergency d = stop_all_downloading d" by (intro emergency_fallback) simp
    with found True show ?thesis
      by (simp add: issued_stop_all_downloading)
  next
    case False
    with found show ?thesis by (simp add: emergency_kill tc_remove_def)
  qed
qed

theorem emergency_id_zero_stops_witness:
  "valid_table (table zero_id_example) \<and> has_finished (table zero_id_example) \<and>
   fst (find_doomed (table zero_id_example) None (-1)) = Some 0 \<and>
   removed (issued zero_id_example (emergency zero_id_example)) = [] \<and>
   issued zero_id_example (emergency zero_id_example) = [Stop {5}]"
proof -
  have h: "valid_table (table zero_id_example)" "has_finished (table zero_id_example)"
    by (simp_all add: zero_id_example_def has_finished_def)
  have z: "fst (find_doomed (table zero_id_example) None (-1)) = Some 0"
    by (simp add: zero_id_example_def)
  from h z emergency_id_zero_stops [OF h] show ?thesis
    by (simp add: zero_id_example_def downloading_torrent_ids_def)
qed

text \<open>
  C18: the scan starts from ratio -1.0 and compares strictly, so when every
  finished torrent has a ratio of at most -1 (transmission reports -1 for a
  ratio that is not available and -2 for an infinite one), phase 2 removes
  nothing and stops every download instead of freeing space.
\<close>

theorem emergency_ratio_na_stops:
  assumes "\<forall>(j, u) \<in> set (table d). leftUntilDone u = 0 \<longrightarrow> ratio u \<le> -1"
  shows "issued d (emergency d) =
           (if downloading_torrent_ids (table d) \<noteq> [] then [Stop (set (downloading_torrent_ids (table d)))] else [])"
proof -
  from find_doomed_none_better [OF assms, of None] have "emergency d = stop_all_downloading d"
    by (intro emergency_fallback) simp
  then show ?thesis by (simp add: issued_stop_all_downloading)
qed

theorem emergency_ratio_na_stops_witness:
  "has_finished (table ratio_na_example) \<and>
   issued ratio_na_example (emergency ratio_na_example) = [Stop {2}]"
proof -
  have h: "\<forall>(j, u) \<in> set (table ratio_na_example). leftUntilDone u = 0 \<longrightarrow> ratio u \<le> -1"
    by (simp add: ratio_na_example_def)
  from emergency_ratio_na_stops [OF h] show ?thesis
    by (simp add: ratio_na_example_def has_finished_def downloading_torrent_ids_def)
qed

end
