(* ===== verification/Scheduler.thy ===== *)
theory Scheduler
  imports Daemon
begin

text \<open>
  Phases 3 to 5 of \<^verbatim>\<open>main()\<close> (lines 44--96), run when the free space is
  at least \<open>FREE_SPACE_LIMIT\<close>: the space budget, the order of the
  incomplete torrents under \<open>torrent_cmp\<close>, the greedy first-fit pass that
  picks the torrents to run, and the reconciliation that stops and starts
  torrents to match the pick, in two batched calls.  Python's
  \<open>list.sort(cmp = ...)\<close> is a stable sort; it is modelled by a stable
  insertion sort on the comparator, \<open>sort_cmp\<close>, and
  \<open>sort_cmp_unique\<close> shows that every stable sort by \<open>torrent_cmp\<close>
  gives the same list, so the choice of algorithm does not matter.
\<close>

definition initial_space_available :: "int \<Rightarrow> torrents \<Rightarrow> int" where
  "initial_space_available free_space torrents =
     free_space + sum_list [sizeWhenDone t. (tid, t) \<leftarrow> torrents, leftUntilDone t = 0]
     - FREE_SPACE_LIMIT"

definition torrent_cmp :: "tid \<times> torrent \<Rightarrow> tid \<times> torrent \<Rightarrow> int" where
  "torrent_cmp left right =
     (case left of (left_id, left_t) \<Rightarrow> case right of (right_id, right_t) \<Rightarrow>
       if status left_t = Downloading \<and> status right_t \<noteq> Downloading then -1
       else if status left_t \<noteq> Downloading \<and> status right_t = Downloading then 1
       else let left_left = leftUntilDone left_t; right_left = leftUntilDone right_t in
         if left_left < right_left then -1
         else if left_left > right_left then 1
         else 0)"

fun insort_cmp :: "('a \<Rightarrow> 'a \<Rightarrow> int) \<Rightarrow> 'a \<Rightarrow> 'a list \<Rightarrow> 'a list" where
  "insort_cmp cmp x [] = [x]"
| "insort_cmp cmp x (y # ys) = (if cmp x y \<le> 0 then x # y # ys else y # insort_cmp cmp x ys)"

fun sort_cmp :: "('a \<Rightarrow> 'a \<Rightarrow> int) \<Rightarrow> 'a list \<Rightarrow> 'a list" where
  "sort_cmp cmp [] = []"
| "sort_cmp cmp (x # xs) = insort_cmp cmp x (sort_cmp cmp xs)"

definition incomplete_torrents :: "torrents \<Rightarrow> torrents" where
  "incomplete_torrents torrents =
     [(tid, t) \<leftarrow> torrents. status t = Downloading \<or> 0 < leftUntilDone t]"

fun schedule_loop :: "torrents \<Rightarrow> tid set \<Rightarrow> int \<Rightarrow> tid set \<times> int" where
  "schedule_loop [] scheduled_torrent_ids space_available = (scheduled_torrent_ids, space_available)"
| "schedule_loop ((tid, t) # ts) scheduled_torrent_ids space_available =
     (let left = leftUntilDone t in
      if left < space_available
      then schedule_loop ts (insert tid scheduled_torrent_ids) (space_available - left)
      else schedule_loop ts scheduled_torrent_ids space_available)"

fun reconcile_loop :: "torrents \<Rightarrow> tid set \<Rightarrow> tid set \<times> tid set \<Rightarrow> tid set \<times> tid set" where
  "reconcile_loop [] scheduled acc = acc"
| "reconcile_loop ((tid, t) # ts) scheduled (to_be_stopped, to_be_started) =
     reconcile_loop ts scheduled
       (if status t = Downloading \<or> 0 < leftUntilDone t
        then (if status t = Downloading \<and> tid \<notin> scheduled then insert tid to_be_stopped else to_be_stopped,
              if status t \<noteq> Downloading \<and> tid \<in> scheduled then insert tid to_be_started else to_be_started)
        else (to_be_stopped, to_be_started))"

definition issue_stop_start :: "tid set \<Rightarrow> tid set \<Rightarrow> daemon \<Rightarrow> daemon" where
  "issue_stop_start to_be_stopped to_be_started d =
     (let d1 = if 0 < card to_be_stopped then tc_stop to_be_stopped d else d
      in if 0 < card to_be_started then tc_start to_be_started d1 else d1)"

definition scheduled_torrent_ids :: "int \<Rightarrow> torrents \<Rightarrow> tid set" where
  "scheduled_torrent_ids free_space torrents =
     (let budget = initial_space_available free_space torrents;
          incomplete = sort_cmp torrent_cmp (incomplete_torrents torrents)
      in fst (schedule_loop incomplete {} budget))"

definition schedule_phase :: "int \<Rightarrow> daemon \<Rightarrow> daemon" where
  "schedule_phase free_space d =
     (let torrents = tc_list d;
          scheduled = scheduled_torrent_ids free_space torrents;
          (to_be_stopped, to_be_started) = reconcile_loop torrents scheduled ({}, {})
      in issue_stop_start to_be_stopped to_be_started d)"

text \<open>
  The two-key order the spec's design notes ask for: downloading torrents
  first, then ascending bytes left (\<open>False < True\<close> on the first key).
\<close>

definition torrent_key :: "tid \<times> torrent \<Rightarrow> bool \<times> int" where
  "torrent_key x = (status (snd x) \<noteq> Downloading, leftUntilDone (snd x))"

text \<open>
  The greedy pass in list form: the entries it picks, in order, and the sum
  of their bytes left.
\<close>

fun greedy_picks :: "torrents \<Rightarrow> int \<Rightarrow> torrents" where
  "greedy_picks [] space = []"
| "greedy_picks ((tid, t) # ts) space =
     (if leftUntilDone t < space then (tid, t) # greedy_picks ts (space - leftUntilDone t)
      else greedy_picks ts space)"

definition stop_set :: "torrents \<Rightarrow> tid set \<Rightarrow> tid set" where
  "stop_set ts S = {i. \<exists>t. (i, t) \<in> set ts \<and> status t = Downloading \<and> i \<notin> S}"

definition start_set :: "torrents \<Rightarrow> tid set \<Rightarrow> tid set" where
  "start_set ts S = {i. \<exists>t. (i, t) \<in> set ts \<and> status t \<noteq> Downloading \<and> 0 < leftUntilDone t \<and> i \<in> S}"

definition reconciled_status :: "tid set \<Rightarrow> tid \<Rightarrow> torrent \<Rightarrow> status" where
  "reconciled_status S i t =
     (if status t = Downloading \<and> i \<notin> S then Stopped
      else if status t \<noteq> Downloading \<and> 0 < leftUntilDone t \<and> i \<in> S then Downloading
      else status t)"

definition left_sum :: "torrents \<Rightarrow> int" where
  "left_sum ts = sum_list (map (leftUntilDone \<circ> snd) ts)"

definition lefts_nonneg :: "torrents \<Rightarrow> bool" where
  "lefts_nonneg ts \<longleftrightarrow> list_all (\<lambda>(i, t). 0 \<le> leftUntilDone t) ts"

text \<open>
  The spec's example of the greedy order: X (id 1) downloads with 30 MiB left,
  Y (id 2) is paused with 10 MiB left, and the budget is 35 MiB.
\<close>

definition xy_example :: torrents where
  "xy_example =
     [(2, \<lparr>ratio = 0, leftUntilDone = 10485760, sizeWhenDone = 20971520, status = Stopped\<rparr>),
      (1, \<lparr>ratio = 0, leftUntilDone = 31457280, sizeWhenDone = 41943040, status = Downloading\<rparr>)]"

subsection \<open>The comparator and the sort\<close>

lemma torrent_cmp_key:
  "torrent_cmp a b =
     (if torrent_key a < torrent_key b then -1 else if torrent_key b < torrent_key a then 1 else 0)"
proof -
  obtain i t where a: "a = (i, t)" by (cases a)
  obtain j u where b: "b = (j, u)" by (cases b)
  show ?thesis
    unfolding a b torrent_cmp_def torrent_key_def Let_def less_prod_def
    by (cases "status t = Downloading"; cases "status u = Downloading") auto
qed
lemma torrent_cmp_le: "torrent_cmp a b \<le> 0 \<longleftrightarrow> torrent_key a \<le> torrent_key b"
  by (simp add: torrent_cmp_key) (metis not_less_iff_gr_or_eq order.order_iff_strict)

lemma torrent_cmp_zero: "torrent_cmp a b = 0 \<longleftrightarrow> torrent_key a = torrent_key b"
  by (simp add: torrent_cmp_key) (metis not_less_iff_gr_or_eq less_irrefl)

lemma torrent_cmp_swap: "torrent_cmp b a = - torrent_cmp a b"
  by (cases "torrent_key a < torrent_key b"; cases "torrent_key b < torrent_key a")
    (auto simp: torrent_cmp_key dest: less_asym)

lemma insort_cmp_insort_key:
  "(\<And>x y. cmp x y \<le> 0 \<longleftrightarrow> f x \<le> f y) \<Longrightarrow> insort_cmp cmp x xs = insort_key f x xs"
  by (induction xs) auto

lemma sort_cmp_sort_key:
  "(\<And>x y. cmp x y \<le> 0 \<longleftrightarrow> f x \<le> f y) \<Longrightarrow> sort_cmp cmp xs = sort_key f xs"
  by (induction xs) (simp_all add: insort_cmp_insort_key)
subsection \<open>The greedy pass\<close>

lemma left_sum_simps [simp]:
  "left_sum [] = 0" "left_sum (x # xs) = leftUntilDone (snd x) + left_sum xs"
  "left_sum (xs @ ys) = left_sum xs + left_sum ys"
  by (simp_all add: left_sum_def)

lemma lefts_nonneg_simps [simp]:
  "lefts_nonneg []" "lefts_nonneg ((i, t) # ts) \<longleftrightarrow> 0 \<le> leftUntilDone t \<and> lefts_nonneg ts"
  "lefts_nonneg (xs @ ys) \<longleftrightarrow> lefts_nonneg xs \<and> lefts_nonneg ys"
  by (simp_all add: lefts_nonneg_def)

lemma lefts_nonneg_filter [intro]: "lefts_nonneg ts \<Longrightarrow> lefts_nonneg (filter P ts)"
  by (auto simp: lefts_nonneg_def list_all_iff)

lemma valid_table_lefts_nonneg [intro]: "valid_table ts \<Longrightarrow> lefts_nonneg ts"
  by (auto simp: valid_table_def lefts_nonneg_def list_all_iff)

lemma left_sum_nonneg: "lefts_nonneg ts \<Longrightarrow> 0 \<le> left_sum ts"
  by (induction ts) auto

lemma schedule_loop_picks:
  "schedule_loop ts S space = (S \<union> fst ` set (greedy_picks ts space), space - left_sum (greedy_picks ts space))"
  by (induction ts space arbitrary: S rule: greedy_picks.induct) (auto simp: Let_def)

lemma greedy_picks_subset: "set (greedy_picks ts space) \<subseteq> set ts"
  by (induction ts space rule: greedy_picks.induct) auto

lemma greedy_picks_fit:
  "lefts_nonneg ts \<Longrightarrow> greedy_picks ts space \<noteq> [] \<Longrightarrow> left_sum (greedy_picks ts space) < space"
proof (induction ts space rule: greedy_picks.induct)
  case 1
  then show ?case by simp
next
  case (2 tid t ts space)
  then show ?case by (cases "greedy_picks ts (space - leftUntilDone t) = []") auto
qed

lemma greedy_picks_first_fit:
  "lefts_nonneg ts \<Longrightarrow> x \<in> set ts \<Longrightarrow> x \<notin> set (greedy_picks ts space) \<Longrightarrow>
     space - left_sum (greedy_picks ts space) \<le> leftUntilDone (snd x)"
proof (induction ts space rule: greedy_picks.induct)
  case 1
  then show ?case by simp
next
  case (2 tid t ts space)
  have "0 \<le> left_sum (greedy_picks ts space)"
    using 2 by (intro left_sum_nonneg) (auto intro: lefts_nonneg_filter simp: lefts_nonneg_def list_all_iff
      dest!: greedy_picks_subset [THEN subsetD])
  with 2 show ?case by (auto split: if_splits)
qed
subsection \<open>Reconciliation\<close>

lemma reconcile_loop_sets:
  "reconcile_loop ts S (A, B) = (A \<union> stop_set ts S, B \<union> start_set ts S)"
  by (induction ts arbitrary: A B) (auto simp: stop_set_def start_set_def)

lemma finite_stop_start_set [simp]: "finite (stop_set ts S)" "finite (start_set ts S)"
proof -
  have "stop_set ts S \<subseteq> fst ` set ts" "start_set ts S \<subseteq> fst ` set ts"
    by (force simp: stop_set_def start_set_def)+
  then show "finite (stop_set ts S)" "finite (start_set ts S)"
    by (auto intro: finite_subset)
qed

lemma stop_start_disjoint: "stop_set ts S \<inter> start_set ts S = {}"
  by (auto simp: stop_set_def start_set_def)

lemma issue_stop_start_eq:
  assumes "finite A" "finite B"
  shows "issued d (issue_stop_start A B d) = (if A \<noteq> {} then [Stop A] else []) @ (if B \<noteq> {} then [Start B] else [])"
    and "table (issue_stop_start A B d) = apply_action (apply_action (table d) (Stop A)) (Start B)"
    and "log_extends d (issue_stop_start A B d)"
  using assms
  by (auto simp: issue_stop_start_def tc_stop_def tc_start_def issued_def card_gt_0_iff Let_def
      intro: log_extends_trans)

lemma schedule_phase_eq:
  "schedule_phase fs d =
     issue_stop_start (stop_set (table d) (scheduled_torrent_ids fs (table d)))
       (start_set (table d) (scheduled_torrent_ids fs (table d))) d"
  by (simp add: schedule_phase_def tc_list_def reconcile_loop_sets Let_def)

lemma scheduled_torrent_ids_picks:
  "scheduled_torrent_ids fs ts =
     fst ` set (greedy_picks (sort_key torrent_key (incomplete_torrents ts)) (initial_space_available fs ts))"
  by (simp add: scheduled_torrent_ids_def schedule_loop_picks sort_cmp_sort_key [OF torrent_cmp_le])

lemma scheduled_torrent_ids_subset: "scheduled_torrent_ids fs ts \<subseteq> fst ` set (incomplete_torrents ts)"
proof -
  have "set (greedy_picks (sort_key torrent_key (incomplete_torrents ts)) (initial_space_available fs ts))
        \<subseteq> set (incomplete_torrents ts)"
    using greedy_picks_subset by fastforce
  then show ?thesis by (auto simp: scheduled_torrent_ids_picks)
qed
lemma stop_set_entry:
  "distinct (map fst ts) \<Longrightarrow> (i, t) \<in> set ts \<Longrightarrow>
     i \<in> stop_set ts S \<longleftrightarrow> status t = Downloading \<and> i \<notin> S"
  by (auto simp: stop_set_def dest: distinct_map_fst_eq)

lemma start_set_entry:
  "distinct (map fst ts) \<Longrightarrow> (i, t) \<in> set ts \<Longrightarrow>
     i \<in> start_set ts S \<longleftrightarrow> status t \<noteq> Downloading \<and> 0 < leftUntilDone t \<and> i \<in> S"
  by (auto simp: start_set_def dest: distinct_map_fst_eq)

lemma table_schedule_phase:
  "table (schedule_phase fs d) =
     apply_action (apply_action (table d) (Stop (stop_set (table d) (scheduled_torrent_ids fs (table d)))))
       (Start (start_set (table d) (scheduled_torrent_ids fs (table d))))"
  by (simp add: schedule_phase_eq issue_stop_start_eq)

lemma log_extends_schedule_phase: "log_extends d (schedule_phase fs d)"
  by (simp add: schedule_phase_eq issue_stop_start_eq)

lemma table_schedule_phase_map:
  assumes dist: "distinct (map fst (table d))"
  shows "table (schedule_phase fs d) =
           map (\<lambda>(i, t). (i, t\<lparr>status := reconciled_status (scheduled_torrent_ids fs (table d)) i t\<rparr>)) (table d)"
proof -
  let ?S = "scheduled_torrent_ids fs (table d)"
  have "(case (case x of (j, t) \<Rightarrow> if j \<in> stop_set (table d) ?S then (j, t\<lparr>status := Stopped\<rparr>) else (j, t)) of
          (j, t) \<Rightarrow> if j \<in> start_set (table d) ?S then (j, t\<lparr>status := resume_status t\<rparr>) else (j, t)) =
        (case x of (i, t) \<Rightarrow> (i, t\<lparr>status := reconciled_status ?S i t\<rparr>))"
    if x: "x \<in> set (table d)" for x
  proof -
    obtain i t where xi: "x = (i, t)" by (cases x)
    with x have it: "(i, t) \<in> set (table d)" by simp
    show ?thesis
      using xi stop_set_entry [OF dist it, of ?S] start_set_entry [OF dist it, of ?S]
      by (auto simp: reconciled_status_def resume_status_def)
  qed
  then show ?thesis
    by (simp add: table_schedule_phase map_map comp_def cong: map_cong)
qed

subsection \<open>Tables whose statuses were updated\<close>

lemma status_map_mem:
  "(i, t') \<in> set (map (\<lambda>(i, t). (i, t\<lparr>status := f i t\<rparr>)) ts) \<longleftrightarrow>
     (\<exists>t. (i, t) \<in> set ts \<and> t' = t\<lparr>status := f i t\<rparr>)"
  by auto

lemma status_map_fst_comp [simp]: "fst \<circ> (\<lambda>(i, t). (i, g i t)) = fst"
  by (auto simp: fun_eq_iff)

lemma status_map_fst [simp]: "map fst (map (\<lambda>(i, t). (i, t\<lparr>status := f i t\<rparr>)) ts) = map fst ts"
  by (induction ts) auto

lemma status_map_valid [simp]:
  "valid_table (map (\<lambda>(i, t). (i, t\<lparr>status := f i t\<rparr>)) ts) \<longleftrightarrow> valid_table ts"
  unfolding valid_table_def list_all_iff by auto

lemma status_map_budget [simp]:
  "initial_space_available fs (map (\<lambda>(i, t). (i, t\<lparr>status := f i t\<rparr>)) ts) = initial_space_available fs ts"
proof -
  have "[sizeWhenDone t. (tid, t) \<leftarrow> map (\<lambda>(i, t). (i, t\<lparr>status := f i t\<rparr>)) ts, leftUntilDone t = 0] =
        [sizeWhenDone t. (tid, t) \<leftarrow> ts, leftUntilDone t = 0]"
    by (induction ts) auto
  then show ?thesis by (simp add: initial_space_available_def)
qed

lemma distinct_map_fst_sort_key [simp]:
  "distinct (map fst (sort_key f xs)) \<longleftrightarrow> distinct (map fst xs)"
  by (simp add: distinct_map)

lemma greedy_picks_distinct:
  "distinct (map fst ts) \<Longrightarrow> distinct (map fst (greedy_picks ts space))"
proof (induction ts space rule: greedy_picks.induct)
  case 1
  then show ?case by simp
next
  case (2 tid t ts space)
  then show ?case using greedy_picks_subset [of ts] by force
qed

lemma left_sum_mset: "mset xs = mset ys \<Longrightarrow> left_sum xs = left_sum ys"
  unfolding left_sum_def by (metis mset_map sum_mset_sum_list)

lemma schedule_phase_status:
  assumes dist: "distinct (map fst (table d))"
    and it: "(i, t') \<in> set (table (schedule_phase fs d))"
  shows "status t' = Downloading \<longleftrightarrow> i \<in> scheduled_torrent_ids fs (table d)"
proof -
  let ?S = "scheduled_torrent_ids fs (table d)"
  from it obtain t where t: "(i, t) \<in> set (table d)" "t' = t\<lparr>status := reconciled_status ?S i t\<rparr>"
    unfolding table_schedule_phase_map [OF dist] status_map_mem by blast
  show ?thesis
  proof (cases "status t = Downloading \<or> 0 < leftUntilDone t")
    case True
    with t show ?thesis by (auto simp: reconciled_status_def)
  next
    case False
    have "i \<notin> ?S"
    proof
      assume "i \<in> ?S"
      with scheduled_torrent_ids_subset [of fs "table d"]
      obtain u where "(i, u) \<in> set (incomplete_torrents (table d))"
        by force
      then have "(i, u) \<in> set (table d)" "status u = Downloading \<or> 0 < leftUntilDone u"
        by (auto simp: incomplete_torrents_def)
      with distinct_map_fst_eq [OF dist t(1)] False show False by blast
    qed
    with t False show ?thesis by (auto simp: reconciled_status_def)
  qed
qed

lemma left_sum_by_id:
  assumes "distinct (map fst xs)" and "\<forall>(i, t) \<in> set xs. leftUntilDone t = w i"
  shows "left_sum xs = sum w (fst ` set xs)"
  using assms
proof (induction xs)
  case Nil
  then show ?case by simp
next
  case (Cons x xs)
  then show ?case by (cases x) (auto simp: sum.insert_if)
qed

lemma greedy_picks_append:
  "greedy_picks (xs @ ys) space =
     greedy_picks xs space @ greedy_picks ys (space - left_sum (greedy_picks xs space))"
  by (induction xs space rule: greedy_picks.induct) (auto simp: algebra_simps)

lemma greedy_picks_all:
  "lefts_nonneg xs \<Longrightarrow> xs = [] \<or> left_sum xs < space \<Longrightarrow> greedy_picks xs space = xs"
proof (induction xs space rule: greedy_picks.induct)
  case 1
  then show ?case by simp
next
  case (2 tid t ts space)
  have "0 \<le> left_sum ts" using 2 by (intro left_sum_nonneg) simp
  with 2 show ?case by auto
qed

lemma greedy_picks_none:
  "\<forall>x \<in> set xs. space \<le> leftUntilDone (snd x) \<Longrightarrow> greedy_picks xs space = []"
  by (induction xs space rule: greedy_picks.induct) auto

lemma mset_sort_partition:
  "mset (sort_key f (filter P xs) @ sort_key f (filter (\<lambda>x. \<not> P x) xs)) = mset xs"
  by (simp add: multiset_partition [symmetric])

lemma sort_key_torrent_stable:
  "filter (\<lambda>x. torrent_key k = torrent_key x) (sort_key torrent_key zs) =
     filter (\<lambda>x. torrent_key k = torrent_key x) zs"
proof -
  have e: "(\<lambda>x. torrent_key k = torrent_key x) = (\<lambda>y. torrent_key y = torrent_key k)" by auto
  show ?thesis unfolding e by (rule sort_key_stable)
qed

lemma filter_partition_same:
  assumes "\<And>x. Q x \<Longrightarrow> P x \<longleftrightarrow> c"
  shows "filter Q (filter P xs) @ filter Q (filter (\<lambda>x. \<not> P x) xs) = filter Q xs"
proof (cases c)
  case True
  have "filter Q (filter (\<lambda>x. \<not> P x) xs) = []"
    unfolding filter_filter filter_empty_conv using assms True by blast
  moreover have "filter Q (filter P xs) = filter Q xs"
    unfolding filter_filter by (rule filter_cong [OF refl]) (use assms True in blast)
  ultimately show ?thesis by simp
next
  case False
  have "filter Q (filter P xs) = []"
    unfolding filter_filter filter_empty_conv using assms False by blast
  moreover have "filter Q (filter (\<lambda>x. \<not> P x) xs) = filter Q xs"
    unfolding filter_filter by (rule filter_cong [OF refl]) (use assms False in blast)
  ultimately show ?thesis by simp
qed

lemma sort_key_torrent_split:
  "sort_key torrent_key xs =
     sort_key torrent_key (filter (\<lambda>x. status (snd x) = Downloading) xs) @
     sort_key torrent_key (filter (\<lambda>x. \<not> status (snd x) = Downloading) xs)"
  (is "_ = ?ys")
proof (rule properties_for_sort_key)
  let ?D = "\<lambda>x. status (snd x) = Downloading"
  show "mset ?ys = mset xs" by (rule mset_sort_partition)
  show "sorted (map torrent_key ?ys)"
    unfolding map_append sorted_append
  proof (intro conjI ballI)
    fix a b
    assume "a \<in> set (map torrent_key (sort_key torrent_key (filter ?D xs)))"
      and "b \<in> set (map torrent_key (sort_key torrent_key (filter (\<lambda>x. \<not> ?D x) xs)))"
    then have "\<not> fst a" "fst b" by (auto simp: torrent_key_def)
    then show "a \<le> b" by (cases a; cases b) (simp add: less_eq_prod_def)
  qed (rule sorted_sort_key)+
  show "filter (\<lambda>x. torrent_key k = torrent_key x) ?ys = filter (\<lambda>x. torrent_key k = torrent_key x) xs"
    for k
  proof -
    have "?D x \<longleftrightarrow> ?D k" if "torrent_key k = torrent_key x" for x
      using that by (auto simp: torrent_key_def)
    then have "filter (\<lambda>x. torrent_key k = torrent_key x) (filter ?D xs) @
               filter (\<lambda>x. torrent_key k = torrent_key x) (filter (\<lambda>x. \<not> ?D x) xs) =
               filter (\<lambda>x. torrent_key k = torrent_key x) xs"
      by (rule filter_partition_same)
    then show ?thesis by (simp only: filter_append sort_key_torrent_stable)
  qed
qed

subsection \<open>Running phases 3 to 5 a second time\<close>

text \<open>
  After phases 3 to 5 the downloading torrents are exactly the scheduled
  ones.  On the next run they sort first, fit the unchanged budget together,
  and leave the same space for the others, none of which fitted before: the
  pick is the same and nothing is stopped or started.
\<close>

lemma schedule_phase_rerun:
  assumes valid: "valid_table (table d)"
  shows "issued (schedule_phase fs d) (schedule_phase fs (schedule_phase fs d)) = []"
proof -
  let ?T = "table d"
  let ?S = "scheduled_torrent_ids fs ?T"
  let ?T2 = "table (schedule_phase fs d)"
  let ?B = "initial_space_available fs ?T"
  let ?L = "sort_key torrent_key (incomplete_torrents ?T)"
  let ?P = "greedy_picks ?L ?B"
  let ?D = "\<lambda>x. status (snd x) = Downloading"
  let ?I2 = "incomplete_torrents ?T2"
  let ?DS = "sort_key torrent_key (filter ?D ?I2)"
  let ?NS = "sort_key torrent_key (filter (\<lambda>x. \<not> ?D x) ?I2)"
  have dist: "distinct (map fst ?T)" using valid by blast
  have T2: "?T2 = map (\<lambda>(i, t). (i, t\<lparr>status := reconciled_status ?S i t\<rparr>)) ?T"
    by (rule table_schedule_phase_map [OF dist])
  have valid2: "valid_table ?T2" using valid by (simp add: T2)
  have dist2: "distinct (map fst ?T2)" using valid2 by blast
  have E: "status t' = Downloading \<longleftrightarrow> i \<in> ?S" if "(i, t') \<in> set ?T2" for i t'
    using schedule_phase_status [OF dist that] .
  define w where "w i = (case map_of ?T i of Some t \<Rightarrow> leftUntilDone t | None \<Rightarrow> 0)" for i
  have wT: "leftUntilDone t = w i" if "(i, t) \<in> set ?T" for i t
    using map_of_is_SomeI [OF dist that] by (simp add: w_def)
  have wT2: "leftUntilDone t = w i" if "(i, t) \<in> set ?T2" for i t
    using that wT by (auto simp: T2)
  have S: "?S = fst ` set ?P" by (rule scheduled_torrent_ids_picks)
  have lnL: "lefts_nonneg ?L"
    using valid by (auto simp: lefts_nonneg_def list_all_iff incomplete_torrents_def dest: valid_table_entry)
  have Psub: "set ?P \<subseteq> set ?T"
    using greedy_picks_subset [of ?L ?B] by (auto simp: incomplete_torrents_def)
  have distP: "distinct (map fst ?P)"
    by (rule greedy_picks_distinct) (simp add: incomplete_torrents_def dist distinct_map_fst_filter)
  have sumP: "left_sum ?P = sum w ?S"
    unfolding S using left_sum_by_id [OF distP, of w] Psub wT by blast
  have idsD: "fst ` set (filter ?D ?I2) = ?S"
  proof
    show "fst ` set (filter ?D ?I2) \<subseteq> ?S"
      using E by (auto simp: incomplete_torrents_def)
    show "?S \<subseteq> fst ` set (filter ?D ?I2)"
    proof
      fix i assume i: "i \<in> ?S"
      with scheduled_torrent_ids_subset [of fs ?T] obtain t where "(i, t) \<in> set ?T"
        by (force simp: incomplete_torrents_def)
      then have it2: "(i, t\<lparr>status := reconciled_status ?S i t\<rparr>) \<in> set ?T2"
        by (force simp: T2)
      with E i have "status (t\<lparr>status := reconciled_status ?S i t\<rparr>) = Downloading" by blast
      with it2 show "i \<in> fst ` set (filter ?D ?I2)"
        by (force simp: incomplete_torrents_def)
    qed
  qed
  have distD: "distinct (map fst ?DS)"
    using dist2 by (simp add: incomplete_torrents_def distinct_map_fst_filter)
  have sumD: "left_sum ?DS = sum w ?S"
  proof -
    have "\<forall>(i, t) \<in> set ?DS. leftUntilDone t = w i"
      using wT2 by (auto simp: incomplete_torrents_def)
    from left_sum_by_id [OF distD this] idsD show ?thesis by simp
  qed
  have lnDS: "lefts_nonneg ?DS"
    using valid2 by (auto simp: lefts_nonneg_def list_all_iff incomplete_torrents_def dest: valid_table_entry)
  have allD: "greedy_picks ?DS ?B = ?DS"
  proof (rule greedy_picks_all [OF lnDS])
    show "?DS = [] \<or> left_sum ?DS < ?B"
    proof (cases "?S = {}")
      case True
      have "fst ` set ?DS = {}" using idsD True by (simp only: set_sort)
      then have "set ?DS = {}" by (simp only: image_is_empty)
      then have "?DS = []" by (simp only: set_empty)
      then show ?thesis ..
    next
      case False
      then have "?P \<noteq> []" using S by auto
      from greedy_picks_fit [OF lnL this] sumP sumD show ?thesis by simp
    qed
  qed
  have noneN: "greedy_picks ?NS (?B - left_sum ?DS) = []"
  proof (rule greedy_picks_none, rule ballI)
    fix x assume x: "x \<in> set ?NS"
    obtain i t2 where xi: "x = (i, t2)" by (cases x)
    from x xi have t2: "(i, t2) \<in> set ?T2" "status t2 \<noteq> Downloading" "0 < leftUntilDone t2"
      by (auto simp: incomplete_torrents_def)
    with E have iS: "i \<notin> ?S" by blast
    from t2(1) obtain t where t: "(i, t) \<in> set ?T" "t2 = t\<lparr>status := reconciled_status ?S i t\<rparr>"
      unfolding T2 status_map_mem by blast
    with t2(3) have "(i, t) \<in> set ?L" by (auto simp: incomplete_torrents_def)
    moreover have "(i, t) \<notin> set ?P" using iS S by force
    ultimately have "?B - left_sum ?P \<le> leftUntilDone (snd (i, t))"
      by (rule greedy_picks_first_fit [OF lnL])
    with sumP sumD t xi show "?B - left_sum ?DS \<le> leftUntilDone (snd x)" by simp
  qed
  have B2: "initial_space_available fs ?T2 = ?B" by (simp add: T2)
  have "scheduled_torrent_ids fs ?T2 = fst ` set (greedy_picks (?DS @ ?NS) ?B)"
    by (simp only: scheduled_torrent_ids_picks B2 sort_key_torrent_split [of "incomplete_torrents ?T2"])
  also have "\<dots> = fst ` set ?DS"
    by (simp only: greedy_picks_append allD noneN append_Nil2)
  also have "\<dots> = ?S" using idsD by simp
  finally have S2: "scheduled_torrent_ids fs ?T2 = ?S" .
  have stop2: "stop_set ?T2 ?S = {}" using E by (auto simp: stop_set_def)
  have start2: "start_set ?T2 ?S = {}" using E by (auto simp: start_set_def)
  show ?thesis
    by (simp add: schedule_phase_eq [of fs "schedule_phase fs d"] S2 stop2 start2 issue_stop_start_eq)
qed

subsection \<open>Properties of the order\<close>

text \<open>
  C6: sorting with the literal comparator \<open>torrent_cmp\<close> is the stable
  two-key sort the spec's design notes ask for: downloading torrents first,
  then ascending bytes left.
\<close>

theorem sort_cmp_torrent:
  "sort_cmp torrent_cmp xs = sort_key torrent_key xs"
  by (rule sort_cmp_sort_key) (rule torrent_cmp_le)

text \<open>
  C14: any stable sort of a list by \<open>torrent_cmp\<close> (a permutation, ordered
  by the comparator, keeping the order of the entries it ranks equal) is the
  list \<open>sort_cmp\<close> computes; so CPython's \<open>list.sort\<close> returns it.
\<close>

theorem sort_cmp_unique:
  assumes "mset ys = mset xs"
    and "sorted_wrt (\<lambda>a b. torrent_cmp a b \<le> 0) ys"
    and "\<forall>k \<in> set ys. filter (\<lambda>x. torrent_cmp k x = 0) ys = filter (\<lambda>x. torrent_cmp k x = 0) xs"
  shows "ys = sort_cmp torrent_cmp xs"
proof -
  have "sort_key torrent_key xs = ys"
  proof (rule properties_for_sort_key)
    show "mset ys = mset xs" by (rule assms(1))
    show "filter (\<lambda>x. torrent_key k = torrent_key x) ys = filter (\<lambda>x. torrent_key k = torrent_key x) xs"
      if "k \<in> set ys" for k
      using assms(3) that by (simp add: torrent_cmp_zero)
    show "sorted (map torrent_key ys)"
      using assms(2) by (simp add: sorted_wrt_map torrent_cmp_le)
  qed
  then show ?thesis by (simp add: sort_cmp_sort_key [OF torrent_cmp_le])
qed

theorem sort_cmp_unique_witness:
  "mset (rev xy_example) = mset xy_example \<and>
   sorted_wrt (\<lambda>a b. torrent_cmp a b \<le> 0) (rev xy_example) \<and>
   rev xy_example = sort_cmp torrent_cmp xy_example"
proof -
  have h: "mset (rev xy_example) = mset xy_example"
    "sorted_wrt (\<lambda>a b. torrent_cmp a b \<le> 0) (rev xy_example)"
    "\<forall>k \<in> set (rev xy_example). filter (\<lambda>x. torrent_cmp k x = 0) (rev xy_example) =
                                 filter (\<lambda>x. torrent_cmp k x = 0) xy_example"
    by (simp_all add: xy_example_def torrent_cmp_def)
  from h sort_cmp_unique [OF h] show ?thesis by simp
qed

text \<open>
  C15: \<open>torrent_cmp\<close> is a consistent comparator: for all arguments
  swapping them negates the result, the result is -1, 0 or 1, and
  \<open>\<le> 0\<close> is transitive, so the non-transitivity the design notes warn
  about does not arise.
\<close>

theorem torrent_cmp_consistent:
  "torrent_cmp b a = - torrent_cmp a b \<and> torrent_cmp a b \<in> {-1, 0, 1} \<and>
   (torrent_cmp a b \<le> 0 \<longrightarrow> torrent_cmp b c \<le> 0 \<longrightarrow> torrent_cmp a c \<le> 0)"
proof (intro conjI impI)
  show "torrent_cmp b a = - torrent_cmp a b" by (rule torrent_cmp_swap)
  show "torrent_cmp a b \<in> {-1, 0, 1}" by (simp add: torrent_cmp_key)
  assume "torrent_cmp a b \<le> 0" "torrent_cmp b c \<le> 0"
  then show "torrent_cmp a c \<le> 0" unfolding torrent_cmp_le by (rule order_trans)
qed

theorem torrent_cmp_consistent_witness:
  "torrent_cmp (xy_example ! 0) (xy_example ! 1) = - torrent_cmp (xy_example ! 1) (xy_example ! 0) \<and>
   torrent_cmp (xy_example ! 1) (xy_example ! 0) \<in> {-1, 0, 1} \<and>
   torrent_cmp (xy_example ! 1) (xy_example ! 0) \<le> 0 \<and> torrent_cmp (xy_example ! 0) (xy_example ! 0) \<le> 0 \<and>
   torrent_cmp (xy_example ! 1) (xy_example ! 0) \<le> 0"
proof -
  have h: "torrent_cmp (xy_example ! 1) (xy_example ! 0) \<le> 0" "torrent_cmp (xy_example ! 0) (xy_example ! 0) \<le> 0"
    by (simp_all add: xy_example_def torrent_cmp_def)
  from h torrent_cmp_consistent [where a = "xy_example ! 1" and b = "xy_example ! 0" and c = "xy_example ! 0"] show ?thesis by blast
qed

subsection \<open>Properties of the greedy pass\<close>

text \<open>
  C5: the pass never overcommits the budget: the scheduled torrents are
  entries of the list, the budget left is the starting one minus their bytes
  left, and it stays positive once anything is scheduled.
\<close>

theorem schedule_loop_fits:
  assumes "lefts_nonneg ts" and "schedule_loop ts {} space = (S, rem)"
  shows "\<exists>ps. set ps \<subseteq> set ts \<and> S = fst ` set ps \<and> rem = space - left_sum ps \<and> (S \<noteq> {} \<longrightarrow> 0 < rem)"
proof (intro exI conjI)
  let ?ps = "greedy_picks ts space"
  from assms(2) have S: "S = fst ` set ?ps" and rem: "rem = space - left_sum ?ps"
    by (simp_all add: schedule_loop_picks)
  show "set ?ps \<subseteq> set ts" by (rule greedy_picks_subset)
  show "S = fst ` set ?ps" "rem = space - left_sum ?ps" by (fact S, fact rem)
  show "S \<noteq> {} \<longrightarrow> 0 < rem"
    using greedy_picks_fit [OF assms(1), of space] S rem by auto
qed

theorem schedule_loop_fits_witness:
  "lefts_nonneg (rev xy_example) \<and> schedule_loop (rev xy_example) {} 36700160 = ({1}, 5242880) \<and>
   (\<exists>ps. set ps \<subseteq> set (rev xy_example) \<and> {1} = fst ` set ps \<and> 5242880 = 36700160 - left_sum ps)"
proof -
  have h: "lefts_nonneg (rev xy_example)" "schedule_loop (rev xy_example) {} 36700160 = ({1}, 5242880)"
    by (simp_all add: xy_example_def)
  from h schedule_loop_fits [OF h] show ?thesis by blast
qed

text \<open>
  C11: the pass is first-fit: a torrent it leaves out has at least as many
  bytes left as the budget that remains at the end.
\<close>

theorem schedule_loop_first_fit:
  assumes "lefts_nonneg ts" and "schedule_loop ts {} space = (S, rem)"
    and "(i, t) \<in> set ts" and "i \<notin> S"
  shows "rem \<le> leftUntilDone t"
proof -
  from assms(2) have S: "S = fst ` set (greedy_picks ts space)"
    and rem: "rem = space - left_sum (greedy_picks ts space)"
    by (simp_all add: schedule_loop_picks)
  from assms(4) S have "(i, t) \<notin> set (greedy_picks ts space)" by force
  from greedy_picks_first_fit [OF assms(1) assms(3) this] rem show ?thesis by simp
qed

theorem schedule_loop_first_fit_witness:
  "lefts_nonneg (rev xy_example) \<and> schedule_loop (rev xy_example) {} 36700160 = ({1}, 5242880) \<and>
   (2, snd (xy_example ! 0)) \<in> set (rev xy_example) \<and> (2::int) \<notin> {1} \<and>
   5242880 \<le> leftUntilDone (snd (xy_example ! 0))"
proof -
  have h: "lefts_nonneg (rev xy_example)" "schedule_loop (rev xy_example) {} 36700160 = ({1}, 5242880)"
    "(2, snd (xy_example ! 0)) \<in> set (rev xy_example)" "(2::int) \<notin> {1}"
    by (simp_all add: xy_example_def)
  from h schedule_loop_first_fit [OF h] show ?thesis by simp
qed

subsection \<open>The reconciliation\<close>

text \<open>
  C12: the reconciliation loop stops exactly the downloading torrents that
  are not scheduled and starts exactly the non-downloading torrents with
  bytes left that are scheduled.
\<close>

theorem reconcile_loop_exact:
  "reconcile_loop ts S ({}, {}) =
     ({i. \<exists>t. (i, t) \<in> set ts \<and> status t = Downloading \<and> i \<notin> S},
      {i. \<exists>t. (i, t) \<in> set ts \<and> status t \<noteq> Downloading \<and> 0 < leftUntilDone t \<and> i \<in> S})"
  by (simp add: reconcile_loop_sets stop_set_def start_set_def)

text \<open>
  C3: after phases 3 to 5 every torrent that was incomplete downloads if and
  only if the greedy pass scheduled it.
\<close>

theorem schedule_phase_reconciles:
  assumes dist: "distinct (map fst (table d))" and it: "(i, t) \<in> set (table d)"
    and inc: "status t = Downloading \<or> 0 < leftUntilDone t"
    and it': "(i, t') \<in> set (table (schedule_phase fs d))"
  shows "status t' = Downloading \<longleftrightarrow> i \<in> scheduled_torrent_ids fs (table d)"
proof -
  let ?S = "scheduled_torrent_ids fs (table d)"
  from it' obtain t1 where
    t1: "(i, t1) \<in> set (apply_action (table d) (Stop (stop_set (table d) ?S)))"
      "t' = (if i \<in> start_set (table d) ?S then t1\<lparr>status := resume_status t1\<rparr> else t1)"
    unfolding table_schedule_phase mem_apply_start by blast
  from t1(1) obtain t0 where
    t0: "(i, t0) \<in> set (table d)" "t1 = (if i \<in> stop_set (table d) ?S then t0\<lparr>status := Stopped\<rparr> else t0)"
    unfolding mem_apply_stop by blast
  from distinct_map_fst_eq [OF dist t0(1) it] have "t0 = t" .
  with t0 t1 inc show ?thesis
    by (auto simp: stop_set_entry [OF dist it] start_set_entry [OF dist it] resume_status_def)
qed

theorem schedule_phase_reconciles_witness:
  "distinct (map fst (table \<lparr>table = xy_example, log = []\<rparr>)) \<and>
   (1, snd (xy_example ! 1)) \<in> set (table \<lparr>table = xy_example, log = []\<rparr>) \<and>
   (status (snd (xy_example ! 1)) = Downloading \<or> 0 < leftUntilDone (snd (xy_example ! 1))) \<and>
   (1, snd (xy_example ! 1)) \<in> set (table (schedule_phase 141557760 \<lparr>table = xy_example, log = []\<rparr>)) \<and>
   (1::int) \<in> scheduled_torrent_ids 141557760 xy_example"
proof -
  have h: "distinct (map fst (table \<lparr>table = xy_example, log = []\<rparr>))"
    "(1, snd (xy_example ! 1)) \<in> set (table \<lparr>table = xy_example, log = []\<rparr>)"
    "status (snd (xy_example ! 1)) = Downloading \<or> 0 < leftUntilDone (snd (xy_example ! 1))"
    "(1, snd (xy_example ! 1)) \<in> set (table (schedule_phase 141557760 \<lparr>table = xy_example, log = []\<rparr>))"
    by (simp_all add: xy_example_def table_schedule_phase scheduled_torrent_ids_def initial_space_available_def
        FREE_SPACE_LIMIT_def torrent_cmp_def incomplete_torrents_def stop_set_def start_set_def)
  from h schedule_phase_reconciles [OF h] show ?thesis
    by (simp add: xy_example_def)
qed
end
