(* ===== verification/Run.thy ===== *)
theory Run
  imports Cleanup Emergency Scheduler
begin

text \<open>
  The entry point \<^verbatim>\<open>main()\<close> (lines 9--96): phase 1, then the volume
  statistics of the download directory read after it (lines 19--20), then
  either phase 2 (free space below the limit; it ends the run) or phases 3
  to 5.  The volume is an external collaborator: \<open>main\<close> takes the
  \<open>os.statvfs\<close> result as a function of the daemon's state at the time of
  the call, so that it may depend on what phase 1 removed.  The lemmas give
  the two branches, the growth of the log and the table's well-formedness
  over a run, and the facts about a second run used in the root theory.
\<close>

record statvfs_result =
  f_bsize :: int
  f_bavail :: int

definition free_space_of :: "statvfs_result \<Rightarrow> int" where
  "free_space_of s = f_bsize s * f_bavail s"

definition main :: "(daemon \<Rightarrow> statvfs_result) \<Rightarrow> daemon \<Rightarrow> daemon" where
  "main statvfs d =
     (let d1 = cleanup d;
          free_space = free_space_of (statvfs d1)
      in if free_space < FREE_SPACE_LIMIT then emergency d1 else schedule_phase free_space d1)"

text \<open>The ids the actions of a run stop and start.\<close>

fun stopped_ids :: "action list \<Rightarrow> tid set" where
  "stopped_ids [] = {}"
| "stopped_ids (Stop ids # as) = ids \<union> stopped_ids as"
| "stopped_ids (_ # as) = stopped_ids as"

fun started_ids :: "action list \<Rightarrow> tid set" where
  "started_ids [] = {}"
| "started_ids (Start ids # as) = ids \<union> started_ids as"
| "started_ids (_ # as) = started_ids as"

subsection \<open>The two branches\<close>

lemma main_low:
  "free_space_of (statvfs (cleanup d)) < FREE_SPACE_LIMIT \<Longrightarrow> main statvfs d = emergency (cleanup d)"
  by (simp add: main_def Let_def)

lemma main_normal:
  "\<not> free_space_of (statvfs (cleanup d)) < FREE_SPACE_LIMIT \<Longrightarrow>
     main statvfs d = schedule_phase (free_space_of (statvfs (cleanup d))) (cleanup d)"
  by (simp add: main_def Let_def)

lemma issued_emergency:
  "issued d (emergency d) = [] \<or> (\<exists>i. issued d (emergency d) = [Remove i]) \<or>
   (\<exists>ids. issued d (emergency d) = [Stop ids])"
  by (auto simp: emergency_def tc_list_def tc_remove_def issued_stop_all_downloading split: option.splits prod.splits)

lemma log_extends_emergency: "log_extends d (emergency d)"
  by (auto simp: emergency_def stop_all_downloading_def model_simps Let_def split: option.splits prod.splits)

lemma log_extends_main: "log_extends d (main statvfs d)"
proof -
  have "log_extends (cleanup d) (main statvfs d)"
    by (cases "free_space_of (statvfs (cleanup d)) < FREE_SPACE_LIMIT")
      (simp_all add: main_low main_normal log_extends_emergency log_extends_schedule_phase)
  with log_extends_cleanup show ?thesis by (rule log_extends_trans)
qed

lemma valid_main: "valid_table (table d) \<Longrightarrow> valid_table (table (main statvfs d))"
  using log_extends_issued [OF log_extends_main [of d statvfs]] by (simp add: valid_replay)

subsection \<open>Facts for a second run\<close>

lemma table_cleanup_filter:
  "distinct (map fst (table d)) \<Longrightarrow> table (cleanup d) = filter (\<lambda>(_, t). \<not> seed_done t) (table d)"
  using filter_ids_of_self [of "table d" seed_done]
  by (simp add: cleanup_closed_form replay_cleanup_actions)

lemma cleanup_noop:
  assumes "\<forall>(i, t) \<in> set (table d). \<not> seed_done t"
  shows "cleanup d = d"
proof -
  have none: "cleanup_actions (table d) = []"
    using assms by (auto simp: cleanup_actions_def)
  have "log_extends d (cleanup d)" by (rule log_extends_cleanup)
  then have "daemon.more (cleanup d) = daemon.more d" by (auto simp: log_extends_def)
  with none show ?thesis by (simp add: cleanup_closed_form daemon.equality)
qed

lemma schedule_phase_no_seed_done:
  assumes "distinct (map fst (table d))" and "\<forall>(i, t) \<in> set (table d). \<not> seed_done t"
  shows "\<forall>(i, t) \<in> set (table (schedule_phase fs d)). \<not> seed_done t"
  using assms by (auto simp: table_schedule_phase_map seed_done_def)

lemma issued_schedule_phase:
  "issued d (schedule_phase fs d) =
     (let S = scheduled_torrent_ids fs (table d) in
      (if stop_set (table d) S \<noteq> {} then [Stop (stop_set (table d) S)] else []) @
      (if start_set (table d) S \<noteq> {} then [Start (start_set (table d) S)] else []))"
  by (simp add: schedule_phase_eq issue_stop_start_eq Let_def)

lemma stopped_started_append [simp]:
  "stopped_ids (as @ bs) = stopped_ids as \<union> stopped_ids bs"
  "started_ids (as @ bs) = started_ids as \<union> started_ids bs"
  by (induction as rule: stopped_ids.induct) auto

lemma cleanup_actions_stops_starts [simp]:
  "stopped_ids (cleanup_actions ts) = {}" "started_ids (cleanup_actions ts) = {}"
  by (induction ts) (auto simp: cleanup_actions_def split: if_splits)

end
