(* ===== verification/Spec2Isabelle.thy ===== *)
theory Spec2Isabelle
  imports Run
begin

text \<open>
  \<^bold>\<open>A verification development for \<^verbatim>\<open>src/utilities/massage-torrents.py\<close>.\<close>

  \<^bold>\<open>The program.\<close> One Python 2 script, run periodically, maintains a
  transmission daemon: \<^verbatim>\<open>main()\<close> removes finished torrents whose seed ratio
  reached 1.1 (phase 1, lines 12--16), reads the free space of the download
  volume (lines 19--20), and then either, below \<^verbatim>\<open>FREE_SPACE_LIMIT\<close>
  (100 MiB), removes the finished torrent of highest ratio or stops every
  download and returns (phase 2, lines 22--42), or computes a space budget
  (line 47), sorts the incomplete torrents with \<^verbatim>\<open>torrent_cmp\<close> (lines
  52--71), picks greedily which of them may run (lines 73--79) and stops and
  starts torrents to match (lines 83--96).  All effects go through the
  transmissionrpc client \<^verbatim>\<open>tc\<close> and \<^verbatim>\<open>time.sleep\<close>.

  \<^bold>\<open>The theories.\<close>
  \<^item> \<open>Prelude\<close>: the id type, the \<open>model_simps\<close> collection and lemmas
    on association lists keyed by \<open>fst\<close>.
  \<^item> \<open>Torrent\<close>: the torrent record (\<open>ratio\<close>, \<open>leftUntilDone\<close>,
    \<open>sizeWhenDone\<close>, \<open>status\<close>), the status datatype,
    \<open>FREE_SPACE_LIMIT\<close>, and \<open>valid_table\<close> (unique ids, non-negative
    fields: the spec's data model).
  \<^item> \<open>Daemon\<close>: the interface the phases share.  The daemon is a record of
    its table (a listing in iteration order) and the log of issued actions;
    \<open>action\<close> has one constructor per client call (remove, stop, start)
    and \<open>Sleep\<close>, \<open>apply_action\<close> is the daemon's effect of each, and
    \<open>tc_list\<close>, \<open>tc_remove\<close>, \<open>tc_stop\<close>, \<open>tc_start\<close>,
    \<open>time_sleep\<close> are the calls.  The daemon's side is modelled from the
    spec (remove deletes the entry, stop pauses, start resumes).  Every phase
    only extends the log (\<open>log_extends\<close>), so its effect is the replay of
    the actions it issued (\<open>issued\<close>).
  \<^item> \<open>Cleanup\<close>: phase 1, \<open>cleanup_loop\<close> over one listing and
    \<open>cleanup\<close>; its issued actions and resulting table in closed form.
  \<^item> \<open>Emergency\<close>: phase 2, the scan \<open>find_doomed\<close> (running maximum from
    -1.0, strict comparison), Python truthiness of \<^verbatim>\<open>doomed_id\<close>,
    \<open>stop_all_downloading\<close>, and \<open>emergency\<close>; the contract
    \<open>emergency_spec\<close> over an \<open>outcome\<close> datatype (killed, stopped all,
    no action) and the refinement theorem.
  \<^item> \<open>Scheduler\<close>: phases 3--5, \<open>initial_space_available\<close>,
    \<open>torrent_cmp\<close>, \<open>sort_cmp\<close> (Python's stable \<^verbatim>\<open>list.sort(cmp=...)\<close>
    as a stable insertion sort on the comparator), \<open>incomplete_torrents\<close>,
    \<open>schedule_loop\<close>, \<open>reconcile_loop\<close>, \<open>issue_stop_start\<close>,
    \<open>scheduled_torrent_ids\<close> and \<open>schedule_phase\<close>; the greedy pass in
    list form (\<open>greedy_picks\<close>) and a second run of the phase.
  \<^item> \<open>Run\<close>: the \<open>os.statvfs\<close> result, \<open>free_space_of\<close>, \<open>main\<close>
    (the volume reading is a function of the daemon state after phase 1),
    and the preservation of \<open>valid_table\<close> by a run.
  \<^item> this theory: the properties that span the phases.

  \<^bold>\<open>What is proved.\<close> Phase 1 removes each finished torrent at ratio
  \<open>\<ge> 1.1\<close> exactly once and nothing else, with a sleep after each removal.
  Phase 2 implements its contract on well-formed listings with nonzero ids,
  picks the first torrent of maximal ratio, and falls back to stopping all
  downloads.  The literal comparator sort equals the two-key stable sort and
  is the only stable sort by that comparator; the comparator is consistent;
  the greedy pass never overcommits the budget and is first-fit; the
  reconciliation stops and starts exactly the right torrents, disjointly, and
  afterwards every incomplete torrent runs iff it was scheduled.  Across the
  phases: the low-space branch is terminal, a normal run removes, stops and
  starts disjoint ids, no finished torrent at ratio 1.1 survives a run, a
  second run on the resulting state issues nothing.  Two theorems pin down
  behaviour the spec does not describe, for every listing: when the first
  finished torrent of maximal ratio has id 0 (false in Python) the phase
  removes nothing and stops all downloads instead, and when every finished
  torrent reports a ratio of at most -1 (transmission's "not available")
  the scan from -1.0 finds none and the phase again only stops downloads.

  \<^bold>\<open>Choices.\<close> Python ints are \<open>int\<close>; ratios are \<open>real\<close> (float
  rounding, which could matter only for ratios within \<open>2\<^sup>-\<^sup>5\<^sup>2\<close> of 1.1,
  is not modelled).  Every loop of the script walks a finite listing, so
  each is a structurally recursive \<open>fun\<close>; no fuel is needed.  A dict is
  an association list in iteration order, and the theorems hold for every
  order.  Sets passed to \<open>tc.stop\<close>/\<open>tc.start\<close> are sets, since
  \<^verbatim>\<open>list(set)\<close> fixes no order.

  \<^bold>\<open>Not modelled.\<close> The client construction (line 10), the print
  statements, transport failures of the daemon (they abort the run, and the
  script handles none), and the daemon's own scheduling beyond the effect of
  the three calls.

  \<^bold>\<open>Plan for further work.\<close> Transport failures as an error sum on
  every client call, with the theorem that an aborted run issued a prefix of
  the actions of a complete one; the daemon's queued and checking states on
  start; statements over several cron runs.
\<close>

definition idem_volume :: statvfs_result where
  "idem_volume = \<lparr>f_bsize = 4096, f_bavail = 34560\<rparr>"

definition low_volume :: statvfs_result where
  "low_volume = \<lparr>f_bsize = 4096, f_bavail = 12800\<rparr>"

text \<open>
  C2: re-running the script on the state its run left, with the same free
  space at or above the limit, issues no action at all.
\<close>

theorem main_idempotent:
  assumes valid: "valid_table (table d)" and space: "FREE_SPACE_LIMIT \<le> free_space_of s"
  shows "issued (main (\<lambda>_. s) d) (main (\<lambda>_. s) (main (\<lambda>_. s) d)) = []"
proof -
  let ?fs = "free_space_of s"
  let ?d1 = "cleanup d"
  have dist: "distinct (map fst (table d))" using valid by blast
  have v1: "valid_table (table ?d1)" using valid by (simp add: table_cleanup_filter [OF dist] valid_table_filter)
  have ns1: "\<forall>(i, t) \<in> set (table ?d1). \<not> seed_done t" by (auto simp: table_cleanup_filter [OF dist])
  have d2: "main (\<lambda>_. s) d = schedule_phase ?fs ?d1" using space by (simp add: main_normal)
  have "\<forall>(i, t) \<in> set (table (schedule_phase ?fs ?d1)). \<not> seed_done t"
    using schedule_phase_no_seed_done [OF _ ns1] v1 by blast
  then have "cleanup (schedule_phase ?fs ?d1) = schedule_phase ?fs ?d1" by (rule cleanup_noop)
  then have "main (\<lambda>_. s) (schedule_phase ?fs ?d1) = schedule_phase ?fs (schedule_phase ?fs ?d1)"
    using space by (simp add: main_normal)
  with d2 schedule_phase_rerun [OF v1] show ?thesis by simp
qed

theorem main_idempotent_witness:
  "valid_table (table \<lparr>table = xy_example, log = []\<rparr>) \<and> FREE_SPACE_LIMIT \<le> free_space_of idem_volume \<and>
   issued (main (\<lambda>_. idem_volume) \<lparr>table = xy_example, log = []\<rparr>)
     (main (\<lambda>_. idem_volume) (main (\<lambda>_. idem_volume) \<lparr>table = xy_example, log = []\<rparr>)) = []"
proof -
  have h: "valid_table (table \<lparr>table = xy_example, log = []\<rparr>)" "FREE_SPACE_LIMIT \<le> free_space_of idem_volume"
    by (simp_all add: xy_example_def FREE_SPACE_LIMIT_def free_space_of_def idem_volume_def)
  from h main_idempotent [OF h] show ?thesis by simp
qed

text \<open>
  C7: when the free space after phase 1 is below the limit, the run ends
  with phase 2: after the actions of phase 1 it issues nothing, one removal,
  or one batched stop, and never a start.
\<close>

theorem main_low_space_terminal:
  assumes "free_space_of (statvfs (cleanup d)) < FREE_SPACE_LIMIT"
  shows "issued d (main statvfs d) = cleanup_actions (table d) @ issued (cleanup d) (main statvfs d) \<and>
         (issued (cleanup d) (main statvfs d) = [] \<or>
          (\<exists>i. issued (cleanup d) (main statvfs d) = [Remove i]) \<or>
          (\<exists>ids. issued (cleanup d) (main statvfs d) = [Stop ids]))"
proof -
  have e: "main statvfs d = emergency (cleanup d)" using assms by (rule main_low)
  have "issued d (main statvfs d) = issued d (cleanup d) @ issued (cleanup d) (main statvfs d)"
    unfolding e using log_extends_cleanup log_extends_emergency by (rule issued_trans)
  then show ?thesis using issued_emergency [of "cleanup d"] by (simp add: e issued_cleanup)
qed

theorem main_low_space_terminal_witness:
  "free_space_of ((\<lambda>_. low_volume) (cleanup kill_example)) < FREE_SPACE_LIMIT \<and>
   issued kill_example (main (\<lambda>_. low_volume) kill_example) =
     cleanup_actions (table kill_example) @ issued (cleanup kill_example) (main (\<lambda>_. low_volume) kill_example) \<and>
   issued (cleanup kill_example) (main (\<lambda>_. low_volume) kill_example) = [Remove 3]"
proof -
  have h: "free_space_of ((\<lambda>_. low_volume) (cleanup kill_example)) < FREE_SPACE_LIMIT"
    by (simp add: free_space_of_def low_volume_def FREE_SPACE_LIMIT_def)
  have r: "issued (cleanup kill_example) (main (\<lambda>_. low_volume) kill_example) = [Remove 3]"
    by (simp add: main_low [OF h] issued_def cleanup_closed_form cleanup_actions_def seed_done_def
        kill_example_def emergency_def tc_list_def tc_remove_def)
  from h r main_low_space_terminal [OF h] show ?thesis by simp
qed

text \<open>
  C8: a run that reaches phases 3 to 5 issues three disjoint sets of
  actions: the ids it removes, stops and starts are pairwise distinct.
\<close>

theorem main_actions_disjoint:
  assumes dist: "distinct (map fst (table d))"
    and space: "\<not> free_space_of (statvfs (cleanup d)) < FREE_SPACE_LIMIT"
  shows "set (removed (issued d (main statvfs d))) \<inter>
           (stopped_ids (issued d (main statvfs d)) \<union> started_ids (issued d (main statvfs d))) = {} \<and>
         stopped_ids (issued d (main statvfs d)) \<inter> started_ids (issued d (main statvfs d)) = {}"
proof -
  let ?fs = "free_space_of (statvfs (cleanup d))"
  let ?T1 = "table (cleanup d)"
  let ?S = "scheduled_torrent_ids ?fs ?T1"
  have e: "main statvfs d = schedule_phase ?fs (cleanup d)" using space by (rule main_normal)
  have "issued d (main statvfs d) = issued d (cleanup d) @ issued (cleanup d) (main statvfs d)"
    unfolding e using log_extends_cleanup log_extends_schedule_phase by (rule issued_trans)
  then have iss: "issued d (main statvfs d) = cleanup_actions (table d) @
      ((if stop_set ?T1 ?S \<noteq> {} then [Stop (stop_set ?T1 ?S)] else []) @
       (if start_set ?T1 ?S \<noteq> {} then [Start (start_set ?T1 ?S)] else []))"
    by (simp add: e issued_cleanup issued_schedule_phase Let_def)
  have sub: "stop_set ?T1 ?S \<union> start_set ?T1 ?S \<subseteq> fst ` set ?T1"
    by (force simp: stop_set_def start_set_def)
  have "set (removed (cleanup_actions (table d))) \<inter> fst ` set ?T1 = {}"
    using dist by (force simp: removed_cleanup_actions table_cleanup_filter dest: distinct_map_fst_eq)
  with sub stop_start_disjoint [of ?T1 ?S] show ?thesis by (auto simp: iss)
qed

theorem main_actions_disjoint_witness:
  "distinct (map fst (table cleanup_example)) \<and>
   \<not> free_space_of ((\<lambda>_. idem_volume) (cleanup cleanup_example)) < FREE_SPACE_LIMIT \<and>
   set (removed (issued cleanup_example (main (\<lambda>_. idem_volume) cleanup_example))) \<inter>
     (stopped_ids (issued cleanup_example (main (\<lambda>_. idem_volume) cleanup_example)) \<union>
      started_ids (issued cleanup_example (main (\<lambda>_. idem_volume) cleanup_example))) = {}"
proof -
  have h: "distinct (map fst (table cleanup_example))"
    "\<not> free_space_of ((\<lambda>_. idem_volume) (cleanup cleanup_example)) < FREE_SPACE_LIMIT"
    by (simp_all add: cleanup_example_def free_space_of_def idem_volume_def FREE_SPACE_LIMIT_def)
  from h main_actions_disjoint [OF h] show ?thesis by simp
qed

text \<open>
  C19: whatever the volume reports, no torrent that is finished with ratio
  at least 1.1 is left in the daemon after a run.
\<close>

theorem main_clears_seeded:
  "\<forall>(i, t) \<in> set (table (main statvfs d)). \<not> (11 / 10 \<le> ratio t \<and> leftUntilDone t = 0)"
proof (intro ballI, clarify)
  fix i t
  assume it: "(i, t) \<in> set (table (main statvfs d))" and seeded: "11 / 10 \<le> ratio t" "leftUntilDone t = 0"
  have ext: "log_extends (cleanup d) (main statvfs d)"
    by (cases "free_space_of (statvfs (cleanup d)) < FREE_SPACE_LIMIT")
      (simp_all add: main_low main_normal log_extends_emergency log_extends_schedule_phase)
  from it log_extends_issued [OF ext] obtain u where
    u: "(i, u) \<in> set (table (cleanup d))" "ratio t = ratio u" "leftUntilDone t = leftUntilDone u"
    using replay_entry by metis
  from u(1) have "(i, u) \<in> set (table d)" "i \<notin> fst ` set (filter (seed_done \<circ> snd) (table d))"
    by (auto simp: cleanup_closed_form replay_cleanup_actions)
  moreover from u seeded have "seed_done u" by (simp add: seed_done_def)
  ultimately show False by force
qed

theorem main_clears_seeded_witness:
  "list_all (\<lambda>(i, t). \<not> (11 / 10 \<le> ratio t \<and> leftUntilDone t = 0))
     (table (main (\<lambda>_. idem_volume) cleanup_example))"
  using main_clears_seeded [of "\<lambda>_. idem_volume" cleanup_example] by (simp add: list_all_iff)

end
